theory Spec2Isabelle
  imports Main
begin

section \<open>The master/slave log replication of the nameserver (master\_slave.cc)\<close>

text \<open>
  The class \<open>MasterSlaveImpl\<close> keeps an append-only log file (\<open>sync.log\<close>), three
  byte offsets into it (\<open>current_offset_\<close>, \<open>sync_offset_\<close>, \<open>applied_offset_\<close>),
  a table of pending completion callbacks and the flag \<open>master_only_\<close>. Each member
  function is embedded as a HOL function that takes the object's state and returns the
  new state.

  Conventions of the embedding:
  \<^item> The three offsets, \<open>len\<close> and \<open>offset\<close> are C++ \<open>int\<close>s. They are modelled as
    unbounded \<open>int\<close>: signed overflow is undefined in C++, so the model describes the
    executions in which the log stays below \<open>2^31\<close> bytes.
  \<^item> A byte is a \<open>char\<close>, a \<open>std::string\<close> and a file's contents are a \<open>string\<close>.
  \<^item> \<open>assert\<close>, \<open>LOG(FATAL, ...)\<close> and an uncaught C++ exception end the process:
    the outcome \<open>Aborted\<close>.
  \<^item> \<open>write(2)\<close> on the log is taken to store all the bytes it is given; the write
    descriptor \<open>log_\<close> is left at the end of the file by \<open>Init\<close> and stays there, so
    a write appends.
  \<^item> The apply handler \<open>log_callback_\<close> and the completion callbacks belong to the
    metadata layer. Their invocations are recorded in the traces \<open>applied_entries\<close> and
    \<open>fired\<close>; a completion callback is identified by a natural number.
  \<^item> The calls of \<open>SendRequest\<close> are recorded in the trace \<open>sent\<close>, each with the
    offset and the entry of its request.
  \<^item> The mutex and the two condition variables carry no data. Each function is first
    given as a function of the state, for a thread that runs alone; the blocking
    \<open>Log\<close> takes what the other threads do in between as a parameter. The section on
    executions then takes the functions apart into the steps between which the other
    threads can act: a part that holds the lock is one step, and so is each test or
    assignment made without the lock.
\<close>

subsection \<open>Outcomes\<close>

datatype 'a outcome = Aborted | Returned 'a

subsection \<open>Bytes of an \<open>int\<close>\<close>

text \<open>\<open>memcpy(buf, &len, 4)\<close> on a little-endian machine, and its inverse.\<close>

definition le32 :: "int \<Rightarrow> string" where
  "le32 n = [char_of n, char_of (n div 256), char_of (n div 65536), char_of (n div 16777216)]"

definition ule32 :: "string \<Rightarrow> int" where
  "ule32 buf = foldr (\<lambda>c acc. of_char c + 256 * acc) buf 0"

definition sle32 :: "string \<Rightarrow> int" where
  "sle32 buf = (let u = ule32 buf in if u < 2147483648 then u else u - 4294967296)"

subsection \<open>The object\<close>

type_synonym callback = nat

record ms =
  exiting :: bool
  master_only :: bool
  is_leader :: bool
  master_addr :: string
  slave_addr :: string
  slave_stub :: "string option"
  log_file :: string
  read_log :: int
  current_offset :: int
  applied_offset :: int
  sync_offset :: int
  callbacks :: "int \<rightharpoonup> callback"
  log_callback :: bool
  applied_entries :: "string list"
  fired :: "(callback \<times> bool) list"
  timeout_tasks :: "(int \<times> int) list"
  worker_starts :: nat
  applied_log :: "string option"
  sent :: "(int \<times> string) list"

text \<open>
  \<open>log_file\<close> is the contents of \<open>sync.log\<close>, shared by the write descriptor \<open>log_\<close>
  and the read descriptor \<open>read_log_\<close>; \<open>read_log\<close> is the position of the read
  descriptor. \<open>slave_stub\<close> is the address the RPC stub is bound to. \<open>log_callback\<close>
  tells whether \<open>RegisterCallback\<close> has stored a handler. \<open>timeout_tasks\<close> holds the
  arguments \<open>(offset, len)\<close> of the delayed calls \<open>PorcessCallbck(offset, len, true)\<close>
  handed to the thread pool. \<open>worker_starts\<close> counts the calls of \<open>worker_.Start\<close>
  with \<open>BackgroundLog\<close>. \<open>applied_log\<close> is the contents of the checkpoint file
  \<open>applied.log\<close>, \<open>None\<close> while it does not exist. \<open>sent\<close> lists the requests
  \<open>(offset, log_data)\<close> given to \<open>SendRequest\<close>, one for each call.
\<close>

subsection \<open>Construction\<close>

text \<open>
  The constructor receives the three flags; \<open>nodes\<close> is \<open>FLAGS_nameserver_nodes\<close>
  already split at the commas. Reading \<open>nodes[0]\<close> or \<open>nodes[1]\<close> of a shorter
  vector is undefined in C++ and is \<open>Aborted\<close> here.
\<close>

definition MasterSlaveImpl :: "string list \<Rightarrow> string \<Rightarrow> string \<Rightarrow> ms outcome" where
  "MasterSlaveImpl nodes nameserver role =
     (case nodes of
        n0 # n1 # _ \<Rightarrow>
          (if nameserver = n0 \<or> nameserver = n1 then
             (let another_server = (if nameserver = n0 then n1 else n0) in
              Returned \<lparr> exiting = False, master_only = False,
                is_leader = (role = ''master''),
                master_addr = (if role = ''master'' then nameserver else another_server),
                slave_addr = (if role = ''slave'' then nameserver else another_server),
                slave_stub = None,
                log_file = [], read_log = - 1,
                current_offset = 0, applied_offset = 0, sync_offset = 0,
                callbacks = Map.empty, log_callback = False,
                applied_entries = [], fired = [], timeout_tasks = [],
                worker_starts = 0, applied_log = None, sent = [] \<rparr>)
           else Aborted)
      | _ \<Rightarrow> Aborted)"

definition RegisterCallback :: "ms \<Rightarrow> ms" where
  "RegisterCallback s = s\<lparr>log_callback := True\<rparr>"

definition IsLeader :: "ms \<Rightarrow> bool" where
  "IsLeader s = is_leader s"

subsection \<open>Reading the log\<close>

text \<open>
  \<open>read(fd, buf, n)\<close> on a regular file returns the bytes from the descriptor's
  position, at most \<open>n\<close> of them, and moves the position past them.
  \<open>lseek(fd, off, SEEK_SET)\<close> fails with \<open>-1\<close> on a negative offset and leaves the
  position where it was; any other offset, also one past the end, becomes the position.
\<close>

definition read_at :: "string \<Rightarrow> int \<Rightarrow> int \<Rightarrow> string" where
  "read_at file pos n = take (nat n) (drop (nat pos) file)"

definition lseek_set :: "int \<Rightarrow> int \<Rightarrow> int \<times> int" where
  "lseek_set pos off = (if off < 0 then (pos, - 1) else (off, off))"

text \<open>
  \<open>ReadEntry\<close> touches the read descriptor only: it is given the file and the
  position, and returns the new position with the entry, or with \<open>None\<close> where the
  source returns \<open>false\<close>. A negative \<open>len\<close> makes \<open>new char[len]\<close> throw.
\<close>

definition ReadEntry :: "string \<Rightarrow> int \<Rightarrow> (int \<times> string option) outcome" where
  "ReadEntry file pos =
     (let buf = read_at file pos 4; ret = int (length buf) in
      if ret \<noteq> 4 then Aborted
      else
        (let len = sle32 buf; pos1 = pos + 4 in
         if len < 0 then Aborted
         else
           (let tmp = read_at file pos1 len; ret = int (length tmp) in
            if ret = len then Returned (pos1 + ret, Some tmp)
            else Returned (pos1 + ret, None))))"

subsection \<open>The checkpoint\<close>

text \<open>
  \<open>LogStatus\<close> writes the four bytes of \<open>applied_offset_\<close> to a new file
  \<open>applied.tmp\<close>, renames it to \<open>applied.log\<close> and schedules itself again in five
  seconds. It changes no member of the object.
\<close>

definition LogStatus :: "ms \<Rightarrow> ms" where
  "LogStatus s = s\<lparr>applied_log := Some (le32 (applied_offset s))\<rparr>"

subsection \<open>Start-up\<close>

text \<open>
  What \<open>Init\<close> finds on disk: whether the two \<open>open\<close> calls on \<open>sync.log\<close>
  succeed, the contents of \<open>sync.log\<close> (empty when \<open>O_CREAT\<close> has just created it),
  and the result of opening \<open>applied.log\<close>. A successful \<open>open\<close> returns a positive
  descriptor, since descriptor 0 is the process's standard input.
\<close>

datatype applied_open = Applied_enoent | Applied_error | Applied_file string

record disk =
  sync_log_wronly :: bool
  sync_log_rdonly :: bool
  sync_log :: string
  applied :: applied_open

text \<open>
  The replay loop of \<open>Init\<close> (lines 72--79). A \<open>ReadEntry\<close> that returns \<open>false\<close>
  runs into \<open>assert(0)\<close>; calling the apply handler before one is registered throws.
\<close>

function Init_replay :: "ms \<Rightarrow> ms outcome" where
  "Init_replay s =
     (if applied_offset s < sync_offset s then
        (case ReadEntry (log_file s) (read_log s) of
           Returned (pos, Some entry) \<Rightarrow>
             (if \<not> log_callback s then Aborted
              else Init_replay
                (s\<lparr>read_log := pos,
                   applied_entries := applied_entries s @ [entry],
                   applied_offset := applied_offset s + int (length entry) + 4\<rparr>))
         | _ \<Rightarrow> Aborted)
      else Returned s)"
  by pat_completeness auto
termination
  by (relation "measure (\<lambda>s. nat (sync_offset s - applied_offset s))") auto

declare Init_replay.simps [simp del]

text \<open>Lines 45--56: the two descriptors of \<open>sync.log\<close>.\<close>

definition Init_open :: "disk \<Rightarrow> ms \<Rightarrow> ms outcome" where
  "Init_open d s =
     (if \<not> sync_log_wronly d then Aborted
      else
        (let s1 = s\<lparr>log_file := sync_log d\<rparr>;
             s2 = s1\<lparr>current_offset := int (length (log_file s1))\<rparr>;
             s3 = s2\<lparr>sync_offset := current_offset s2\<rparr>
         in if \<not> sync_log_rdonly d then Aborted
            else Returned (s3\<lparr>read_log := 0\<rparr>)))"

text \<open>Lines 58--71: the checkpoint.\<close>

definition Init_checkpoint :: "disk \<Rightarrow> ms \<Rightarrow> ms outcome" where
  "Init_checkpoint d s =
     (case applied d of
        Applied_error \<Rightarrow> Aborted
      | Applied_enoent \<Rightarrow> Returned (s\<lparr>applied_log := None\<rparr>)
      | Applied_file ckpt \<Rightarrow>
          (let s1 = s\<lparr>applied_log := Some ckpt\<rparr>; buf = take 4 ckpt in
           if length buf = 4 then
             (let s2 = s1\<lparr>applied_offset := sle32 buf\<rparr> in
              if \<not> applied_offset s2 \<le> sync_offset s2 then Aborted
              else Returned
                (s2\<lparr>read_log := fst (lseek_set (read_log s2) (applied_offset s2))\<rparr>))
           else Returned s1))"

text \<open>Lines 80--87: after the replay.\<close>

definition Init_serve :: "ms \<Rightarrow> ms outcome" where
  "Init_serve s =
     (if applied_offset s \<noteq> sync_offset s then Aborted
      else
        (let s1 = s\<lparr>slave_stub := Some (slave_addr s)\<rparr>;
             s2 = (if IsLeader s1 then s1\<lparr>worker_starts := Suc (worker_starts s1)\<rparr>
                   else s1)
         in Returned (LogStatus s2)))"

definition Init :: "disk \<Rightarrow> ms \<Rightarrow> ms outcome" where
  "Init d s =
     (case Init_open d s of
        Aborted \<Rightarrow> Aborted
      | Returned s1 \<Rightarrow>
          (case Init_checkpoint d s1 of
             Aborted \<Rightarrow> Aborted
           | Returned s2 \<Rightarrow>
               (case Init_replay s2 of
                  Aborted \<Rightarrow> Aborted
                | Returned s3 \<Rightarrow> Init_serve s3)))"

subsection \<open>The leader's local append\<close>

definition LogLocal :: "ms \<Rightarrow> string \<Rightarrow> (ms \<times> int) outcome" where
  "LogLocal s entry =
     (if \<not> IsLeader s then Aborted
      else
        (let len = int (length entry);
             s1 = s\<lparr>log_file := log_file s @ le32 len @ entry\<rparr>;
             w = int (length entry)
         in if \<not> 0 \<le> w then Aborted else Returned (s1, w + 4)))"

subsection \<open>Completion callbacks\<close>

text \<open>
  \<open>PorcessCallbck\<close> runs the callback with the lock released; in the model the
  lookup, the call and the updates that follow are one step. \<open>PorcessCallbck_exit\<close>
  is its last statement (lines 321--324).
\<close>

definition PorcessCallbck_exit :: "ms \<Rightarrow> int \<Rightarrow> int \<Rightarrow> ms" where
  "PorcessCallbck_exit s offset len =
     (if master_only s \<and> offset + len = current_offset s
      then s\<lparr>master_only := True\<rparr> else s)"

definition PorcessCallbck :: "ms \<Rightarrow> int \<Rightarrow> int \<Rightarrow> bool \<Rightarrow> ms" where
  "PorcessCallbck s offset len timeout_check =
     (case callbacks s offset of
        Some callback \<Rightarrow>
          (let s1 = s\<lparr>callbacks := (callbacks s)(offset := None),
                       fired := fired s @ [(callback, True)]\<rparr>;
               s2 = (if offset + len > applied_offset s1
                     then s1\<lparr>applied_offset := offset + len\<rparr> else s1)
           in if timeout_check \<and> \<not> master_only s2 then s2\<lparr>master_only := True\<rparr>
              else PorcessCallbck_exit s2 offset len)
      | None \<Rightarrow> PorcessCallbck_exit s offset len)"

text \<open>
  The asynchronous \<open>Log\<close>. \<open>std::map::insert\<close> leaves an existing key as it is.
\<close>

definition Log_async :: "ms \<Rightarrow> string \<Rightarrow> callback \<Rightarrow> ms outcome" where
  "Log_async s entry callback =
     (case LogLocal s entry of
        Aborted \<Rightarrow> Aborted
      | Returned (s1, len) \<Rightarrow>
          (let s2 =
             (if master_only s1 \<and> sync_offset s1 < current_offset s1 then
                s1\<lparr>fired := fired s1 @ [(callback, True)],
                   applied_offset := current_offset s1\<rparr>
              else
                s1\<lparr>callbacks :=
                     (if callbacks s1 (current_offset s1) = None
                      then (callbacks s1)(current_offset s1 \<mapsto> callback)
                      else callbacks s1),
                   timeout_tasks :=
                     timeout_tasks s1 @ [(current_offset s1, int (length entry) + 4)]\<rparr>)
           in Returned (s2\<lparr>current_offset := current_offset s2 + len\<rparr>)))"

subsection \<open>Promotion\<close>

text \<open>\<open>SwitchToLeader\<close> is called on an initialised object (\<open>rpc_client_\<close> exists).\<close>

definition SwitchToLeader :: "ms \<Rightarrow> ms" where
  "SwitchToLeader s =
     (let s1 = s\<lparr>is_leader := True\<rparr>;
          s2 = s1\<lparr>sync_offset := 0\<rparr>;
          s3 = s2\<lparr>read_log := fst (lseek_set (read_log s2) 0)\<rparr>;
          old_master_addr = master_addr s3;
          s4 = s3\<lparr>master_addr := slave_addr s3\<rparr>;
          s5 = s4\<lparr>slave_addr := old_master_addr\<rparr>;
          s6 = s5\<lparr>slave_stub := Some (slave_addr s5)\<rparr>
      in s6\<lparr>worker_starts := Suc (worker_starts s6)\<rparr>)"

subsection \<open>The standby's handler\<close>

record AppendLogRequest =
  req_offset :: int
  req_log_data :: string

record AppendLogResponse =
  resp_success :: bool
  resp_offset :: int

text \<open>
  The handler sets \<open>offset\<close> on the two rejections only; an unset field reads as its
  default 0. It writes the record before it calls the apply handler.
\<close>

definition AppendLog :: "ms \<Rightarrow> AppendLogRequest \<Rightarrow> (ms \<times> AppendLogResponse) outcome" where
  "AppendLog s request =
     (if req_offset request > current_offset s then
        Returned (s, \<lparr>resp_success = False, resp_offset = current_offset s\<rparr>)
      else if req_offset request < current_offset s then
        Returned (s, \<lparr>resp_success = False, resp_offset = - 1\<rparr>)
      else
        (let len = int (length (req_log_data request));
             s1 = s\<lparr>log_file := log_file s @ le32 len @ req_log_data request\<rparr>
         in if \<not> log_callback s1 then Aborted
            else
              (let s2 = s1\<lparr>applied_entries := applied_entries s1 @ [req_log_data request]\<rparr>;
                   s3 = s2\<lparr>current_offset := current_offset s2 + (len + 4)\<rparr>;
                   s4 = s3\<lparr>applied_offset := current_offset s3\<rparr>
               in Returned (s4, \<lparr>resp_success = True, resp_offset = 0\<rparr>))))"

subsection \<open>The blocking commit\<close>

text \<open>
  The blocking \<open>Log\<close> holds the lock for its append only (lines 96--101). After that
  it reads and writes the shared members without the lock, and \<open>TimeWait\<close> releases
  the lock while it sleeps. A \<open>schedule\<close> gives what the calling thread meets:
  \<open>others_first\<close> is what the other threads do between the unlock and the test of
  line 103, \<open>others_passed\<close> what they do between that test and the assignment of
  line 105, \<open>others_last\<close> what they do between the end of the loop and the assignment
  of line 130, \<open>start_point\<close> the clock reading of line 109, and each \<open>round\<close> one
  evaluation of the loop test of line 111: what the other threads have done before it,
  the clock reading, what they do while \<open>TimeWait\<close> sleeps, and the result of
  \<open>TimeWait\<close>. The clock is in microseconds and goes on: after the rounds listed, the
  next reading is past \<open>stop_point\<close>.

  The product \<open>timeout_ms * 1000\<close> is formed in \<open>int\<close> before it is added to the
  64-bit clock reading. Beyond the range of \<open>int\<close> it is undefined in C++; the model
  takes the value the machine leaves, the product wrapped to 32 bits.
\<close>

definition wrap_int :: "int \<Rightarrow> int" where
  "wrap_int n = (n + 2147483648) mod 4294967296 - 2147483648"

record round =
  others_before :: "ms \<Rightarrow> ms"
  now :: int
  others_waiting :: "ms \<Rightarrow> ms"
  signalled :: bool

record schedule =
  others_first :: "ms \<Rightarrow> ms"
  others_passed :: "ms \<Rightarrow> ms"
  others_last :: "ms \<Rightarrow> ms"
  start_point :: int
  rounds :: "round list"

datatype log_path = Fast_path | Synced | Timed_out

definition Log_append :: "ms \<Rightarrow> string \<Rightarrow> (ms \<times> int) outcome" where
  "Log_append s entry =
     (case LogLocal s entry of
        Aborted \<Rightarrow> Aborted
      | Returned (s1, len) \<Rightarrow>
          (let last_offset = current_offset s1
           in Returned (s1\<lparr>current_offset := current_offset s1 + len\<rparr>, last_offset)))"

definition Log_no_wait :: "ms \<Rightarrow> ms" where
  "Log_no_wait s = s\<lparr>applied_offset := current_offset s\<rparr>"

definition Log_woken :: "ms \<Rightarrow> ms" where
  "Log_woken s = (if master_only s then s\<lparr>master_only := False\<rparr> else s)"

definition Log_timeout :: "ms \<Rightarrow> ms" where
  "Log_timeout s = s\<lparr>master_only := True\<rparr>"

fun Log_wait ::
  "int \<Rightarrow> (ms \<Rightarrow> ms) \<Rightarrow> round list \<Rightarrow> ms \<Rightarrow> ms \<times> bool \<times> log_path" where
  "Log_wait stop_point after [] s = (Log_timeout (after s), True, Timed_out)"
| "Log_wait stop_point after (r # rs) s0 =
     (let s = others_before r s0 in
      if sync_offset s \<noteq> current_offset s \<and> now r < stop_point then
        (let s1 = others_waiting r s in
         if signalled r then
           (if sync_offset s1 \<noteq> current_offset s1 then Log_wait stop_point after rs s1
            else (Log_woken s1, True, Synced))
         else (Log_timeout (after s1), True, Timed_out))
      else (Log_timeout (after s), True, Timed_out))"

text \<open>
  \<open>Log_traced\<close> is the function with the control path it took as a third result;
  \<open>Log\<close> is what the caller sees.
\<close>

definition Log_traced ::
  "schedule \<Rightarrow> ms \<Rightarrow> string \<Rightarrow> int \<Rightarrow> (ms \<times> bool \<times> log_path) outcome" where
  "Log_traced sc s entry timeout_ms =
     (case Log_append s entry of
        Aborted \<Rightarrow> Aborted
      | Returned (s1, last_offset) \<Rightarrow>
          (let s2 = others_first sc s1 in
           if master_only s2 \<and> sync_offset s2 < last_offset then
             Returned (Log_no_wait (others_passed sc s2), True, Fast_path)
           else
             (let stop_point = start_point sc + wrap_int (timeout_ms * 1000)
              in Returned (Log_wait stop_point (others_last sc) (rounds sc) s2))))"

definition Log :: "schedule \<Rightarrow> ms \<Rightarrow> string \<Rightarrow> int \<Rightarrow> (ms \<times> bool) outcome" where
  "Log sc s entry timeout_ms =
     (case Log_traced sc s entry timeout_ms of
        Aborted \<Rightarrow> Aborted
      | Returned (s1, ret, path) \<Rightarrow> Returned (s1, ret))"

subsection \<open>The Replicator\<close>

text \<open>
  \<open>ReplicateLog\<close> sends each entry with \<open>SendRequest\<close> until the call succeeds. The
  results of the calls are given as a list: \<open>Send_failed\<close> where \<open>SendRequest\<close>
  returns \<open>false\<close>, \<open>Reply success offset\<close> where it returns \<open>true\<close> with that
  response. Every call is recorded in \<open>sent\<close> with the request it carries. When the
  list is used up inside the retry loop, the last call has not come back:
  \<open>Drain_retrying\<close>. As a function of the state \<open>ReplicateLog\<close> is the thread
  running alone.
\<close>

datatype rpc_result = Send_failed | Reply bool int

datatype drain =
    Drain_aborted
  | Drain_retrying ms
  | Drain_returned ms
  | Drain_waiting ms
  | Drain_running ms

text \<open>Lines 262--271: a response with \<open>success = false\<close>.\<close>

definition ReplicateLog_mismatch :: "ms \<Rightarrow> int \<Rightarrow> ms outcome" where
  "ReplicateLog_mismatch s response_offset =
     (if response_offset \<noteq> - 1 then
        (let s1 = s\<lparr>sync_offset := response_offset\<rparr>;
             (pos, offset) = lseek_set (read_log s1) (sync_offset s1)
         in if offset \<noteq> sync_offset s1 then Aborted
            else Returned (s1\<lparr>read_log := pos\<rparr>))
      else Returned s)"

text \<open>
  Lines 272--281: a response with \<open>success = true\<close>. \<open>ReplicateLog_advance\<close> is the
  part under the lock (lines 273--281), after \<open>PorcessCallbck\<close> has come back.
\<close>

definition ReplicateLog_advance :: "ms \<Rightarrow> string \<Rightarrow> ms" where
  "ReplicateLog_advance s entry =
     (let s1 = s\<lparr>sync_offset := sync_offset s + (4 + int (length entry))\<rparr>
      in if master_only s1 \<and> sync_offset s1 = current_offset s1
         then s1\<lparr>master_only := False\<rparr> else s1)"

definition ReplicateLog_success :: "ms \<Rightarrow> string \<Rightarrow> ms" where
  "ReplicateLog_success s entry =
     ReplicateLog_advance (PorcessCallbck s (sync_offset s) (int (length entry) + 4) False) entry"

text \<open>Lines 283--284: after the loop.\<close>

definition ReplicateLog_done :: "ms \<Rightarrow> ms" where
  "ReplicateLog_done s = s\<lparr>applied_offset := current_offset s\<rparr>"

definition ReplicateLog_response :: "ms \<Rightarrow> string \<Rightarrow> bool \<Rightarrow> int \<Rightarrow> ms outcome" where
  "ReplicateLog_response s entry success offset =
     (if \<not> success then ReplicateLog_mismatch s offset
      else Returned (ReplicateLog_success s entry))"

fun ReplicateLog :: "rpc_result list \<Rightarrow> ms \<Rightarrow> drain"
  and SendRequest :: "rpc_result list \<Rightarrow> ms \<Rightarrow> string \<Rightarrow> drain" where
  "ReplicateLog rs s =
     (if sync_offset s < current_offset s then
        (if sync_offset s = current_offset s then Drain_returned (ReplicateLog_done s)
         else
           (case ReadEntry (log_file s) (read_log s) of
              Aborted \<Rightarrow> Drain_aborted
            | Returned (pos, None) \<Rightarrow> Drain_returned (s\<lparr>read_log := pos\<rparr>)
            | Returned (pos, Some entry) \<Rightarrow> SendRequest rs (s\<lparr>read_log := pos\<rparr>) entry))
      else Drain_returned (ReplicateLog_done s))"
| "SendRequest [] s entry = Drain_retrying (s\<lparr>sent := sent s @ [(sync_offset s, entry)]\<rparr>)"
| "SendRequest (Send_failed # rs) s entry =
     SendRequest rs (s\<lparr>sent := sent s @ [(sync_offset s, entry)]\<rparr>) entry"
| "SendRequest (Reply success offset # rs) s entry =
     (case ReplicateLog_response (s\<lparr>sent := sent s @ [(sync_offset s, entry)]\<rparr>)
             entry success offset of
        Aborted \<Rightarrow> Drain_aborted
      | Returned s1 \<Rightarrow> ReplicateLog rs s1)"

declare ReplicateLog.simps [simp del]



subsection \<open>Executions\<close>

text \<open>
  Modelled from the spec: the caller of these functions (the nameserver's \<open>main\<close>) is
  not among the sources. The specification requires the apply handler to be registered
  before \<open>Init\<close>; \<open>startup\<close> is that sequence.
\<close>

definition startup :: "string list \<Rightarrow> string \<Rightarrow> string \<Rightarrow> disk \<Rightarrow> ms outcome" where
  "startup nodes nameserver role d =
     (case MasterSlaveImpl nodes nameserver role of
        Aborted \<Rightarrow> Aborted
      | Returned s \<Rightarrow> Init d (RegisterCallback s))"

text \<open>A standby serves one \<open>AppendLog\<close> request after the other.\<close>

fun standby_run :: "AppendLogRequest list \<Rightarrow> ms \<Rightarrow> ms outcome" where
  "standby_run [] s = Returned s"
| "standby_run (request # requests) s =
     (case AppendLog s request of
        Aborted \<Rightarrow> Aborted
      | Returned (s1, response) \<Rightarrow> standby_run requests s1)"

text \<open>
  On the leader several threads work on the object: the thread of \<open>BackgroundLog\<close>,
  the callers of the blocking \<open>Log\<close>, the callers of the asynchronous \<open>Log\<close> and the
  thread pool. A \<open>process\<close> is the object together with the places at which the
  thread of \<open>BackgroundLog\<close> and the callers of the blocking \<open>Log\<close> stand.

  The thread of \<open>BackgroundLog\<close> stands
  \<^item> \<open>At_wait\<close>: in \<open>BackgroundLog\<close>, holding the lock, before the test of line 222;
  \<^item> \<open>At_test\<close>: in \<open>ReplicateLog\<close>, before the loop test of line 237;
  \<^item> \<open>At_lock\<close>: before the locked lines 238--245;
  \<^item> \<open>At_read\<close>: before \<open>ReadEntry\<close> on line 247;
  \<^item> \<open>At_send entry offset\<close>: in the loop of lines 255--261, with the request built on
    lines 253--254;
  \<^item> \<open>At_callback entry\<close>: before the call of \<open>PorcessCallbck\<close> on line 272;
  \<^item> \<open>At_advance entry\<close>: before the locked lines 273--281;
  \<^item> \<open>At_done\<close>: below the loop, before line 283;
  \<^item> \<open>Exited\<close>: returned from \<open>BackgroundLog\<close>; \<open>No_worker\<close>: never started.

  A caller of the blocking \<open>Log\<close> stands
  \<^item> \<open>Appended last_offset\<close>: after the unlock of line 101, before the test of line 103;
  \<^item> \<open>Passed\<close>: after that test has held, before line 105;
  \<^item> \<open>At_loop\<close>: before the loop test of line 111;
  \<^item> \<open>Waiting\<close>: asleep in \<open>TimeWait\<close>;
  \<^item> \<open>Broke\<close>: below the loop, before line 130;
  \<^item> \<open>Done ret\<close>: returned.
\<close>

datatype worker =
    No_worker
  | At_wait
  | At_test
  | At_lock
  | At_read
  | At_send string int
  | At_callback string
  | At_advance string
  | At_done
  | Exited

datatype caller = Appended int | Passed | At_loop | Waiting | Broke | Done bool

record process =
  obj :: ms
  worker :: worker
  callers :: "caller list"

text \<open>\<open>Init\<close> starts the thread of \<open>BackgroundLog\<close> on a leader.\<close>

definition boot :: "string list \<Rightarrow> string \<Rightarrow> string \<Rightarrow> disk \<Rightarrow> process outcome" where
  "boot nodes nameserver role d =
     (case startup nodes nameserver role d of
        Aborted \<Rightarrow> Aborted
      | Returned s \<Rightarrow>
          Returned \<lparr>obj = s, worker = (if IsLeader s then At_wait else No_worker),
                    callers = []\<rparr>)"

text \<open>
  A step is a part of a function that runs without the other threads coming in
  between: a part that holds the lock, or one test or assignment made without it.
  \<^item> \<open>Log_append_op\<close>: a new caller of the blocking \<open>Log\<close> runs lines 96--101;
  \<^item> \<open>Log_test_op n\<close>: caller \<open>n\<close> makes the test of line 103;
  \<^item> \<open>Log_no_wait_op n\<close>: it runs lines 105--106;
  \<^item> \<open>Log_loop_test_op n in_time\<close>: it makes the loop test of line 111, \<open>in_time\<close>
    telling whether the clock is before \<open>stop_point\<close>;
  \<^item> \<open>Log_wake_op n woken\<close>: \<open>TimeWait\<close> comes back with \<open>woken\<close> and lines
    114--126 run under the lock;
  \<^item> \<open>Log_timeout_op n\<close>: it runs lines 129--131;
  \<^item> \<open>Log_async_op\<close>: the asynchronous \<open>Log\<close>, all under the lock;
  \<^item> \<open>Timeout_task_op n\<close>: the thread pool runs the \<open>n\<close>-th delayed
    \<open>PorcessCallbck\<close>;
  \<^item> \<open>Worker_op\<close>: the thread of \<open>BackgroundLog\<close> takes its next step;
  \<^item> \<open>Send_failed_op\<close>: its call of \<open>SendRequest\<close> comes back \<open>false\<close>;
  \<^item> \<open>Answer_op t\<close>: its call of \<open>SendRequest\<close> comes back with the response that
    the standby, being in the state \<open>t\<close>, gives to the request; a standby that dies
    over the request makes the call fail;
  \<^item> \<open>LogStatus_op\<close>: \<open>LogStatus\<close>.
  A step that is not the turn of its thread changes nothing. A test that reads two
  members without the lock reads them at once. \<open>ReadEntry\<close> with the read of
  \<open>sync_offset_\<close> on line 254 is one step: on a leader only the thread of
  \<open>BackgroundLog\<close> writes \<open>sync_offset_\<close> and moves the read descriptor.
  \<open>PorcessCallbck\<close> releases the lock around the call of the callback and is taken
  as one step all the same.
\<close>

datatype op =
    Log_append_op string
  | Log_test_op nat
  | Log_no_wait_op nat
  | Log_loop_test_op nat bool
  | Log_wake_op nat bool
  | Log_timeout_op nat
  | Log_async_op string callback
  | Timeout_task_op nat
  | Worker_op
  | Send_failed_op
  | Answer_op ms
  | LogStatus_op

definition run_timeout_task :: "ms \<Rightarrow> nat \<Rightarrow> ms" where
  "run_timeout_task s n =
     (if n < length (timeout_tasks s) then
        (let (offset, len) = timeout_tasks s ! n;
             s1 = s\<lparr>timeout_tasks := take n (timeout_tasks s) @ drop (Suc n) (timeout_tasks s)\<rparr>
         in PorcessCallbck s1 offset len True)
      else s)"

definition worker_step :: "process \<Rightarrow> process outcome" where
  "worker_step p =
     (let s = obj p in
      case worker p of
        No_worker \<Rightarrow> Returned p
      | Exited \<Rightarrow> Returned p
      | At_wait \<Rightarrow>
          Returned
            (if exiting s then p\<lparr>worker := Exited\<rparr>
             else if sync_offset s = current_offset s then p
             else p\<lparr>worker := At_test\<rparr>)
      | At_test \<Rightarrow>
          Returned (p\<lparr>worker := (if sync_offset s < current_offset s then At_lock else At_done)\<rparr>)
      | At_lock \<Rightarrow>
          Returned (p\<lparr>worker := (if sync_offset s = current_offset s then At_done else At_read)\<rparr>)
      | At_read \<Rightarrow>
          (case ReadEntry (log_file s) (read_log s) of
             Aborted \<Rightarrow> Aborted
           | Returned (pos, None) \<Rightarrow> Returned (p\<lparr>obj := s\<lparr>read_log := pos\<rparr>, worker := At_wait\<rparr>)
           | Returned (pos, Some entry) \<Rightarrow>
               Returned (p\<lparr>obj := s\<lparr>read_log := pos\<rparr>,
                           worker := At_send entry (sync_offset s)\<rparr>))
      | At_send entry offset \<Rightarrow> Returned p
      | At_callback entry \<Rightarrow>
          Returned
            (p\<lparr>obj := PorcessCallbck s (sync_offset s) (int (length entry) + 4) False,
               worker := At_advance entry\<rparr>)
      | At_advance entry \<Rightarrow>
          Returned (p\<lparr>obj := ReplicateLog_advance s entry, worker := At_test\<rparr>)
      | At_done \<Rightarrow> Returned (p\<lparr>obj := ReplicateLog_done s, worker := At_wait\<rparr>))"

text \<open>
  The call of \<open>SendRequest\<close> comes back: with \<open>None\<close> it has failed and is made
  again after five seconds, with a response lines 262--272 follow.
\<close>

definition send_result :: "process \<Rightarrow> (bool \<times> int) option \<Rightarrow> process outcome" where
  "send_result p result =
     (case worker p of
        At_send entry offset \<Rightarrow>
          (let s = (obj p)\<lparr>sent := sent (obj p) @ [(offset, entry)]\<rparr> in
           case result of
             None \<Rightarrow> Returned (p\<lparr>obj := s\<rparr>)
           | Some (success, response_offset) \<Rightarrow>
               (if \<not> success then
                  (case ReplicateLog_mismatch s response_offset of
                     Aborted \<Rightarrow> Aborted
                   | Returned s1 \<Rightarrow> Returned (p\<lparr>obj := s1, worker := At_test\<rparr>))
                else Returned (p\<lparr>obj := s, worker := At_callback entry\<rparr>)))
      | _ \<Rightarrow> Returned p)"

definition answer :: "ms \<Rightarrow> worker \<Rightarrow> (bool \<times> int) option" where
  "answer t w =
     (case w of
        At_send entry offset \<Rightarrow>
          (case AppendLog t \<lparr>req_offset = offset, req_log_data = entry\<rparr> of
             Aborted \<Rightarrow> None
           | Returned (t1, response) \<Rightarrow> Some (resp_success response, resp_offset response))
      | _ \<Rightarrow> None)"

definition caller_at :: "process \<Rightarrow> nat \<Rightarrow> caller option" where
  "caller_at p n = (if n < length (callers p) then Some (callers p ! n) else None)"

definition move_caller :: "process \<Rightarrow> nat \<Rightarrow> caller \<Rightarrow> process" where
  "move_caller p n c = p\<lparr>callers := (callers p)[n := c]\<rparr>"

fun step :: "op \<Rightarrow> process \<Rightarrow> process outcome" where
  "step (Log_append_op entry) p =
     (case Log_append (obj p) entry of
        Aborted \<Rightarrow> Aborted
      | Returned (s1, last_offset) \<Rightarrow>
          Returned (p\<lparr>obj := s1, callers := callers p @ [Appended last_offset]\<rparr>))"
| "step (Log_test_op n) p =
     (case caller_at p n of
        Some (Appended last_offset) \<Rightarrow>
          Returned
            (move_caller p n
               (if master_only (obj p) \<and> sync_offset (obj p) < last_offset
                then Passed else At_loop))
      | _ \<Rightarrow> Returned p)"
| "step (Log_no_wait_op n) p =
     (case caller_at p n of
        Some Passed \<Rightarrow> Returned (move_caller (p\<lparr>obj := Log_no_wait (obj p)\<rparr>) n (Done True))
      | _ \<Rightarrow> Returned p)"
| "step (Log_loop_test_op n in_time) p =
     (case caller_at p n of
        Some At_loop \<Rightarrow>
          Returned
            (move_caller p n
               (if sync_offset (obj p) \<noteq> current_offset (obj p) \<and> in_time
                then Waiting else Broke))
      | _ \<Rightarrow> Returned p)"
| "step (Log_wake_op n woken) p =
     (case caller_at p n of
        Some Waiting \<Rightarrow>
          (if woken then
             (if sync_offset (obj p) \<noteq> current_offset (obj p)
              then Returned (move_caller p n At_loop)
              else Returned (move_caller (p\<lparr>obj := Log_woken (obj p)\<rparr>) n (Done True)))
           else Returned (move_caller p n Broke))
      | _ \<Rightarrow> Returned p)"
| "step (Log_timeout_op n) p =
     (case caller_at p n of
        Some Broke \<Rightarrow> Returned (move_caller (p\<lparr>obj := Log_timeout (obj p)\<rparr>) n (Done True))
      | _ \<Rightarrow> Returned p)"
| "step (Log_async_op entry callback) p =
     (case Log_async (obj p) entry callback of
        Aborted \<Rightarrow> Aborted
      | Returned s1 \<Rightarrow> Returned (p\<lparr>obj := s1\<rparr>))"
| "step (Timeout_task_op n) p = Returned (p\<lparr>obj := run_timeout_task (obj p) n\<rparr>)"
| "step Worker_op p = worker_step p"
| "step Send_failed_op p = send_result p None"
| "step (Answer_op t) p = send_result p (answer t (worker p))"
| "step LogStatus_op p = Returned (p\<lparr>obj := LogStatus (obj p)\<rparr>)"

fun run :: "op list \<Rightarrow> process \<Rightarrow> process outcome" where
  "run [] p = Returned p"
| "run (x # xs) p = (case step x p of Aborted \<Rightarrow> Aborted | Returned p1 \<Rightarrow> run xs p1)"

subsection \<open>What the leader keeps\<close>

text \<open>
  Every step keeps this: the log file is \<open>current_offset_\<close> bytes long, the read
  descriptor stands inside it, nothing is applied or scheduled beyond its end, and
  \<open>sync_offset_\<close> is at most the position of the read descriptor, by the size of the
  entry in flight while one is in flight.
\<close>

definition in_flight :: "worker \<Rightarrow> int" where
  "in_flight w =
     (case w of
        At_send entry offset \<Rightarrow> 4 + int (length entry)
      | At_callback entry \<Rightarrow> 4 + int (length entry)
      | At_advance entry \<Rightarrow> 4 + int (length entry)
      | _ \<Rightarrow> 0)"

definition request_offset :: "worker \<Rightarrow> int \<Rightarrow> int" where
  "request_offset w sync = (case w of At_send entry offset \<Rightarrow> offset | _ \<Rightarrow> sync)"

definition process_inv :: "process \<Rightarrow> bool" where
  "process_inv p =
     (is_leader (obj p) \<and>
      int (length (log_file (obj p))) = current_offset (obj p) \<and>
      0 \<le> read_log (obj p) \<and> read_log (obj p) \<le> current_offset (obj p) \<and>
      applied_offset (obj p) \<le> current_offset (obj p) \<and>
      (\<forall>(offset, len) \<in> set (timeout_tasks (obj p)). offset + len \<le> current_offset (obj p)) \<and>
      request_offset (worker p) (sync_offset (obj p)) = sync_offset (obj p) \<and>
      sync_offset (obj p) + in_flight (worker p) \<le> read_log (obj p))"

subsection \<open>One registration of a completion callback\<close>

text \<open>
  The callback \<open>cb\<close> registered at the offset \<open>k\<close> for an entry of \<open>len\<close> bytes on
  disk is either still in the table, has been invoked \<open>n\<close> times and has its timeout
  check scheduled, or it has left the table and has been invoked once more; no other
  key holds it, and \<open>k\<close> lies below \<open>current_offset_\<close>, where no later registration
  goes.
\<close>

definition once :: "int \<Rightarrow> int \<Rightarrow> callback \<Rightarrow> nat \<Rightarrow> ms \<Rightarrow> bool" where
  "once k len cb n s =
     (k < current_offset s \<and>
      (\<forall>k'. k' \<noteq> k \<longrightarrow> callbacks s k' \<noteq> Some cb) \<and>
      (callbacks s k = Some cb \<and> count_list (fired s) (cb, True) = n \<and>
         (k, len) \<in> set (timeout_tasks s) \<or>
       callbacks s k = None \<and> count_list (fired s) (cb, True) = Suc n))"

subsection \<open>Example states\<close>

text \<open>
  The states of a leader and of a standby that have started with no log and no
  checkpoint, for the nodes \<open>ns1\<close> (the master) and \<open>ns2\<close>.
\<close>

definition empty_disk :: disk where
  "empty_disk =
     \<lparr>sync_log_wronly = True, sync_log_rdonly = True, sync_log = [], applied = Applied_enoent\<rparr>"

definition fresh_leader :: ms where
  "fresh_leader =
     \<lparr> exiting = False, master_only = False, is_leader = True,
       master_addr = ''ns1'', slave_addr = ''ns2'', slave_stub = Some ''ns2'',
       log_file = [], read_log = 0,
       current_offset = 0, applied_offset = 0, sync_offset = 0,
       callbacks = Map.empty, log_callback = True,
       applied_entries = [], fired = [], timeout_tasks = [],
       worker_starts = Suc 0, applied_log = Some (le32 0), sent = [] \<rparr>"

definition fresh_standby :: ms where
  "fresh_standby =
     \<lparr> exiting = False, master_only = False, is_leader = False,
       master_addr = ''ns1'', slave_addr = ''ns2'', slave_stub = Some ''ns2'',
       log_file = [], read_log = 0,
       current_offset = 0, applied_offset = 0, sync_offset = 0,
       callbacks = Map.empty, log_callback = True,
       applied_entries = [], fired = [], timeout_tasks = [],
       worker_starts = 0, applied_log = Some (le32 0), sent = [] \<rparr>"

definition fresh_process :: process where
  "fresh_process = \<lparr>obj = fresh_leader, worker = At_wait, callers = []\<rparr>"

text \<open>A caller of the blocking \<open>Log\<close> that no other thread meets before the deadline.\<close>

definition alone :: schedule where
  "alone =
     \<lparr>others_first = id, others_passed = id, others_last = id, start_point = 0, rounds = []\<rparr>"

text \<open>
  A caller of the blocking \<open>Log\<close> that is overtaken: between its unlock and its test
  of line 103 the Replicator runs a whole \<open>ReplicateLog\<close> in which the standby accepts
  the entry. The caller then evaluates the loop test once, well before the deadline.
\<close>

definition overtaken :: schedule where
  "overtaken =
     \<lparr>others_first =
        (\<lambda>s. case ReplicateLog [Reply True 0] s of Drain_returned s1 \<Rightarrow> s1 | _ \<Rightarrow> s),
      others_passed = id, others_last = id,
      start_point = 0,
      rounds = [\<lparr>others_before = id, now = 1, others_waiting = id, signalled = False\<rparr>]\<rparr>"

text \<open>The leader after \<open>Log(''a'', 1000)\<close> with that schedule.\<close>

definition overtaken_leader :: ms where
  "overtaken_leader =
     fresh_leader\<lparr>master_only := True, log_file := le32 1 @ ''a'', read_log := 5,
       current_offset := 5, applied_offset := 5, sync_offset := 5, sent := [(0, ''a'')]\<rparr>"

text \<open>
  A caller of the blocking \<open>Log\<close> on a leader with one entry to send: between its
  unlock and its test of line 103 the Replicator sends that entry, the standby accepts
  it, and the Replicator sends the entry of the caller, which is not answered. The
  caller then sleeps in \<open>TimeWait\<close> until the timeout.
\<close>

definition acknowledged :: schedule where
  "acknowledged =
     \<lparr>others_first =
        (\<lambda>s. case ReplicateLog [Reply True 0] s of Drain_retrying s1 \<Rightarrow> s1 | _ \<Rightarrow> s),
      others_passed = id, others_last = id,
      start_point = 0,
      rounds = [\<lparr>others_before = id, now = 1, others_waiting = id, signalled = False\<rparr>]\<rparr>"

text \<open>The leader after a blocking commit that has timed out with nothing sent.\<close>

definition degraded_leader :: ms where
  "degraded_leader =
     fresh_leader\<lparr>master_only := True, log_file := le32 1 @ ''a'', current_offset := 5\<rparr>"

text \<open>The leader after \<open>Log(''b'', 100)\<close> on that state with the schedule above.\<close>

definition acknowledged_leader :: ms where
  "acknowledged_leader =
     fresh_leader\<lparr>master_only := True, log_file := le32 1 @ ''a'' @ le32 1 @ ''b'',
       read_log := 10, current_offset := 10, sync_offset := 5,
       sent := [(0, ''a''), (5, ''b'')]\<rparr>"

text \<open>The leader after two blocking commits, the first timed out.\<close>

definition lagging_leader :: ms where
  "lagging_leader =
     fresh_leader\<lparr>master_only := True, log_file := le32 1 @ ''a'' @ le32 1 @ ''b'',
       current_offset := 10, applied_offset := 10\<rparr>"

text \<open>
  The leader inside \<open>SendRequest\<close> for its second entry \<open>b\<close>, after two asynchronous
  commits of which the standby has acknowledged the first.
\<close>

definition sending_leader :: ms where
  "sending_leader =
     fresh_leader\<lparr>log_file := le32 1 @ ''a'' @ le32 1 @ ''b'', read_log := 10,
       current_offset := 10, applied_offset := 5, sync_offset := 5,
       callbacks := [5 \<mapsto> 8], fired := [(7, True)],
       timeout_tasks := [(0, 5), (5, 5)], sent := [(0, ''a'')]\<rparr>"


definition stale_disk :: disk where
  "stale_disk =
     \<lparr>sync_log_wronly = True, sync_log_rdonly = True, sync_log = [],
      applied = Applied_file (le32 5)\<rparr>"



text \<open>
  An execution in which an entry is appended between the last loop test of
  \<open>ReplicateLog\<close> and its line 283: an asynchronous commit of \<open>a\<close>, which the
  Replicator sends and the standby accepts; the loop test of line 237, which fails; an
  asynchronous commit of \<open>b\<close>; line 283. And the process it ends in.
\<close>

definition race :: "op list" where
  "race =
     [Log_async_op ''a'' 7, Worker_op, Worker_op, Worker_op, Worker_op,
      Answer_op fresh_standby, Worker_op, Worker_op, Worker_op,
      Log_async_op ''b'' 8, Worker_op]"

definition raced_process :: process where
  "raced_process =
     \<lparr>obj = fresh_leader\<lparr>log_file := le32 1 @ ''a'' @ le32 1 @ ''b'', read_log := 5,
              current_offset := 10, applied_offset := 10, sync_offset := 5,
              callbacks := [5 \<mapsto> 8], fired := [(7, True)],
              timeout_tasks := [(0, 5), (5, 5)], sent := [(0, ''a'')]\<rparr>,
      worker = At_wait, callers = []\<rparr>"

text \<open>
  An execution of two blocking commits with a standby that does not answer: the first
  finds its deadline passed at the loop test, the second returns by the test of line
  103. And the process it ends in.
\<close>

definition degrade :: "op list" where
  "degrade =
     [Log_append_op ''a'', Log_test_op 0, Log_loop_test_op 0 False, Log_timeout_op 0,
      Log_append_op ''b'', Log_test_op 1, Log_no_wait_op 1]"

definition lagging_process :: process where
  "lagging_process = \<lparr>obj = lagging_leader, worker = At_wait, callers = [Done True, Done True]\<rparr>"

text \<open>
  An execution with a standby that loses its log: it accepts \<open>a\<close> and then, empty
  again, answers the request for \<open>b\<close> at the offset 5 with its own offset 0. And the
  process it ends in.
\<close>

definition resync :: "op list" where
  "resync =
     [Log_async_op ''a'' 7, Worker_op, Worker_op, Worker_op, Worker_op,
      Answer_op fresh_standby, Worker_op, Worker_op,
      Log_async_op ''b'' 8, Worker_op, Worker_op, Worker_op,
      Answer_op fresh_standby]"

definition rewound_process :: process where
  "rewound_process =
     \<lparr>obj = fresh_leader\<lparr>log_file := le32 1 @ ''a'' @ le32 1 @ ''b'', read_log := 0,
              current_offset := 10, applied_offset := 5, sync_offset := 0,
              callbacks := [5 \<mapsto> 8], fired := [(7, True)],
              timeout_tasks := [(0, 5), (5, 5)], sent := [(0, ''a''), (5, ''b'')]\<rparr>,
      worker = At_test, callers = []\<rparr>"

text \<open>
  The leader after one asynchronous commit that the standby has acknowledged and whose
  timeout check has run.
\<close>

definition synced_process :: process where
  "synced_process =
     \<lparr>obj = fresh_leader\<lparr>log_file := le32 1 @ ''a'', read_log := 5,
              current_offset := 5, applied_offset := 5, sync_offset := 5,
              fired := [(7, True)], sent := [(0, ''a'')]\<rparr>,
      worker = At_test, callers = []\<rparr>"

section \<open>Properties\<close>

subsection \<open>Bytes and records\<close>

lemma le32_length [simp]: "length (le32 n) = 4"
  by (simp add: le32_def)

lemma ReadEntry_Some:
  assumes "ReadEntry file pos = Returned (pos', Some e)" "0 \<le> pos"
  shows "pos' = pos + 4 + int (length e) \<and> pos' \<le> int (length file)"
proof -
  define len where "len = sle32 (read_at file pos 4)"
  from assms have a: "length (read_at file pos 4) = 4" "0 \<le> len"
    "int (length (read_at file (pos + 4) len)) = len" "e = read_at file (pos + 4) len"
    "pos' = pos + 4 + len"
    by (auto simp: ReadEntry_def Let_def len_def split: if_splits)
  from a(1,2,3) assms(2) have "pos + 4 + len \<le> int (length file)"
    by (simp add: read_at_def min_def split: if_splits)
  with a show ?thesis by simp
qed

lemma ReadEntry_None:
  assumes "ReadEntry file pos = Returned (pos', None)" "0 \<le> pos"
  shows "pos \<le> pos' \<and> pos' \<le> int (length file)"
proof -
  define len where "len = sle32 (read_at file pos 4)"
  from assms have a: "length (read_at file pos 4) = 4"
    "pos' = pos + 4 + int (length (read_at file (pos + 4) len))"
    by (auto simp: ReadEntry_def Let_def len_def split: if_splits)
  from a(1) assms(2) have "pos + 4 + int (length (read_at file (pos + 4) len)) \<le> int (length file)"
    unfolding read_at_def length_take length_drop by arith
  with a show ?thesis by simp
qed

lemma sle32_le32:
  assumes "0 \<le> n" "n < 2147483648"
  shows "sle32 (le32 n) = n"
proof -
  define a where "a = n div 256"
  define b where "b = a div 256"
  define c where "c = b div 256"
  have n: "n div 65536 = b" "n div 16777216 = c"
    unfolding a_def b_def c_def by (simp_all add: zdiv_zmult2_eq)
  have "0 \<le> c" "c < 256" using assms unfolding n(2) [symmetric] by simp_all
  hence c: "c mod 256 = c" by simp
  have "ule32 (le32 n) = n mod 256 + 256 * (a mod 256 + 256 * (b mod 256 + 256 * (c mod 256)))"
    by (simp add: ule32_def le32_def n a_def [symmetric])
  also have "b mod 256 + 256 * (c mod 256) = b"
    unfolding c unfolding c_def by simp
  also have "a mod 256 + 256 * b = a"
    unfolding b_def by simp
  also have "n mod 256 + 256 * a = n" unfolding a_def by simp
  finally show ?thesis using assms by (simp add: sle32_def)
qed

lemma ReadEntry_written:
  assumes "0 \<le> pos" "int (length e) < 2147483648"
    and "drop (nat pos) file = le32 (int (length e)) @ e @ rest"
  shows "ReadEntry file pos = Returned (pos + 4 + int (length e), Some e)"
proof -
  have a: "read_at file pos 4 = le32 (int (length e))"
    using assms(3) by (simp add: read_at_def)
  have "drop (nat (pos + 4)) file = drop 4 (drop (nat pos) file)"
    using assms(1) by (simp add: nat_add_distrib add.commute)
  hence b: "read_at file (pos + 4) (int (length e)) = e"
    using assms(3) by (simp add: read_at_def)
  show ?thesis
    using assms(2) by (simp add: ReadEntry_def Let_def a b sle32_le32)
qed




lemmas bytes_defs = le32_def sle32_def ule32_def read_at_def ReadEntry_def

lemmas leader_defs =
  Log_append_def Log_async_def LogLocal_def IsLeader_def Log_no_wait_def Log_woken_def
  Log_timeout_def PorcessCallbck_def ReplicateLog_response_def ReplicateLog_advance_def
  ReplicateLog_success_def ReplicateLog_mismatch_def ReplicateLog_done_def lseek_set_def
  run_timeout_task_def LogStatus_def

subsection \<open>Start-up\<close>

lemma Init_replay_keeps:
  "Init_replay s = Returned s' \<Longrightarrow>
     sync_offset s' = sync_offset s \<and> current_offset s' = current_offset s \<and>
     log_callback s' = log_callback s \<and> is_leader s' = is_leader s \<and>
     log_file s' = log_file s \<and> master_only s' = master_only s \<and>
     callbacks s' = callbacks s \<and> timeout_tasks s' = timeout_tasks s \<and>
     fired s' = fired s \<and> sync_offset s' \<le> applied_offset s' "
proof (induction s rule: Init_replay.induct)
  case (1 s)
  show ?case
  proof (cases "applied_offset s < sync_offset s")
    case False
    with "1.prems" show ?thesis by (simp add: Init_replay.simps)
  next
    case True
    with "1.prems" obtain pos entry where
      r: "ReadEntry (log_file s) (read_log s) = Returned (pos, Some entry)" and
      c: "log_callback s"
      by (auto simp: Init_replay.simps [of s] split: outcome.splits option.splits if_splits)
    from "1.prems" True r c have step:
      "Init_replay (s\<lparr>read_log := pos,
                   applied_entries := applied_entries s @ [entry],
                   applied_offset := applied_offset s + int (length entry) + 4\<rparr>) = Returned s'"
      by (simp add: Init_replay.simps [of s])
    from "1.IH" [of "(pos, Some entry)" pos "Some entry" entry] True r c step
    show ?thesis by simp
  qed
qed

lemma Init_replay_read_log:
  "Init_replay s = Returned s' \<Longrightarrow> 0 \<le> read_log s \<Longrightarrow>
     applied_offset s \<le> read_log s \<Longrightarrow> read_log s \<le> int (length (log_file s)) \<Longrightarrow>
     applied_offset s' \<le> read_log s' \<and> read_log s' \<le> int (length (log_file s)) \<and> 0 \<le> read_log s'"
proof (induction s rule: Init_replay.induct)
  case (1 s)
  show ?case
  proof (cases "applied_offset s < sync_offset s")
    case False
    with "1.prems" show ?thesis by (simp add: Init_replay.simps)
  next
    case True
    with "1.prems" obtain pos entry where
      r: "ReadEntry (log_file s) (read_log s) = Returned (pos, Some entry)" and
      c: "log_callback s"
      by (auto simp: Init_replay.simps [of s] split: outcome.splits option.splits if_splits)
    from "1.prems" True r c have step:
      "Init_replay (s\<lparr>read_log := pos,
                   applied_entries := applied_entries s @ [entry],
                   applied_offset := applied_offset s + int (length entry) + 4\<rparr>) = Returned s'"
      by (simp add: Init_replay.simps [of s])
    from ReadEntry_Some [OF r] "1.prems" have
      p: "pos = read_log s + 4 + int (length entry)" "pos \<le> int (length (log_file s))"
      by simp_all
    from "1.IH" [of "(pos, Some entry)" pos "Some entry" entry] True r c step p "1.prems"
    show ?thesis by simp
  qed
qed

lemma Init_stages:
  assumes "Init d s0 = Returned s"
  obtains s1 s2 s3 where "Init_open d s0 = Returned s1" "Init_checkpoint d s1 = Returned s2"
     "Init_replay s2 = Returned s3" "Init_serve s3 = Returned s"
  using assms by (auto simp: Init_def split: outcome.splits)

lemma Init_open_post:
  "Init_open d s0 = Returned s \<Longrightarrow>
     s = s0\<lparr>log_file := sync_log d, current_offset := int (length (sync_log d)),
            sync_offset := int (length (sync_log d)), read_log := 0\<rparr>"
  by (auto simp: Init_open_def Let_def split: if_splits)

lemma Init_checkpoint_post:
  "Init_checkpoint d s0 = Returned s \<Longrightarrow> read_log s0 = 0 \<Longrightarrow> 0 \<le> sync_offset s0 \<Longrightarrow>
     applied_offset s0 = 0 \<Longrightarrow>
     0 \<le> read_log s \<and> applied_offset s \<le> read_log s \<and> read_log s \<le> sync_offset s0 \<and>
     sync_offset s = sync_offset s0 \<and> current_offset s = current_offset s0 \<and>
     log_callback s = log_callback s0 \<and> is_leader s = is_leader s0 \<and>
     log_file s = log_file s0 \<and> master_only s = master_only s0 \<and>
     callbacks s = callbacks s0 \<and> timeout_tasks s = timeout_tasks s0 \<and> fired s = fired s0"
  by (auto simp: Init_checkpoint_def Let_def lseek_set_def split: if_splits applied_open.splits)

lemma Init_serve_post:
  "Init_serve s0 = Returned s \<Longrightarrow>
     applied_offset s0 = sync_offset s0 \<and> applied_offset s = applied_offset s0 \<and>
     read_log s = read_log s0 \<and>
     sync_offset s = sync_offset s0 \<and> current_offset s = current_offset s0 \<and>
     log_callback s = log_callback s0 \<and> is_leader s = is_leader s0 \<and>
     log_file s = log_file s0 \<and> master_only s = master_only s0 \<and>
     callbacks s = callbacks s0 \<and> timeout_tasks s = timeout_tasks s0 \<and> fired s = fired s0"
  by (auto simp: Init_serve_def Let_def LogStatus_def split: if_splits)

lemma Init_post:
  assumes "Init d s0 = Returned s" "applied_offset s0 = 0"
  shows "applied_offset s = current_offset s \<and> sync_offset s = current_offset s \<and>
         current_offset s = int (length (log_file s)) \<and>
         sync_offset s \<le> read_log s \<and> read_log s \<le> current_offset s \<and> 
         log_callback s = log_callback s0 \<and> is_leader s = is_leader s0 \<and>
         master_only s = master_only s0 \<and> callbacks s = callbacks s0 \<and>
         timeout_tasks s = timeout_tasks s0 \<and> fired s = fired s0"
proof -
  from assms(1) obtain s1 s2 s3 where
    st: "Init_open d s0 = Returned s1" "Init_checkpoint d s1 = Returned s2"
     "Init_replay s2 = Returned s3" "Init_serve s3 = Returned s"
    by (rule Init_stages)
  note o = Init_open_post [OF st(1)]
  have "read_log s1 = 0" "0 \<le> sync_offset s1" "applied_offset s1 = 0"
    using o assms(2) by simp_all
  note c = Init_checkpoint_post [OF st(2) this]
  note k = Init_replay_keeps [OF st(3)]
  have r: "applied_offset s3 \<le> read_log s3 \<and> read_log s3 \<le> int (length (log_file s2)) \<and> 0 \<le> read_log s3"
    by (rule Init_replay_read_log [OF st(3)]) (use c o in simp_all)
  note v = Init_serve_post [OF st(4)]
  show ?thesis using o c k r v by simp
qed

lemma startup_post:
  assumes "startup nodes nameserver role d = Returned s"
  shows "applied_offset s = current_offset s \<and> sync_offset s = current_offset s \<and>
         current_offset s = int (length (log_file s)) \<and>
         sync_offset s \<le> read_log s \<and> read_log s \<le> current_offset s \<and>
         log_callback s \<and> is_leader s = (role = ''master'') \<and>
         \<not> master_only s \<and> callbacks s = Map.empty \<and>
         timeout_tasks s = [] \<and> fired s = []"
proof -
  from assms obtain s0 where
    c: "MasterSlaveImpl nodes nameserver role = Returned s0" and
    i: "Init d (RegisterCallback s0) = Returned s"
    by (auto simp: startup_def split: outcome.splits)
  from c have f: "applied_offset s0 = 0" "is_leader s0 = (role = ''master'')"
    "\<not> master_only s0" "callbacks s0 = Map.empty" "timeout_tasks s0 = []" "fired s0 = []"
    by (auto simp: MasterSlaveImpl_def Let_def split: list.splits if_splits)
  from Init_post [OF i] f show ?thesis by (simp add: RegisterCallback_def)
qed

lemma startup_fresh_leader:
  "startup [''ns1'', ''ns2''] ''ns1'' ''master'' empty_disk = Returned fresh_leader"
  by (simp add: startup_def MasterSlaveImpl_def RegisterCallback_def Init_def Init_open_def
      Init_checkpoint_def Init_serve_def Init_replay.simps IsLeader_def LogStatus_def
      empty_disk_def fresh_leader_def Let_def)

lemma startup_fresh_standby:
  "startup [''ns1'', ''ns2''] ''ns2'' ''slave'' empty_disk = Returned fresh_standby"
  by (simp add: startup_def MasterSlaveImpl_def RegisterCallback_def Init_def Init_open_def
      Init_checkpoint_def Init_serve_def Init_replay.simps IsLeader_def LogStatus_def
      empty_disk_def fresh_standby_def Let_def)

text \<open>
  Claim C10. When \<open>applied.log\<close> exists, holds at least four bytes, and the \<open>int\<close>
  they store is greater than the length of \<open>sync.log\<close>, the assertion of line 67
  fails: \<open>Init\<close> aborts. The offset is not clamped to the end of the log and the
  checkpoint is not taken as absent, since no state is returned at all.
\<close>

theorem Init_checkpoint_beyond_log:
  assumes "applied d = Applied_file ckpt" "4 \<le> length ckpt"
    and "int (length (sync_log d)) < sle32 (take 4 ckpt)"
  shows "Init d s = Aborted \<and>
         (\<forall>s1. Init_open d s = Returned s1 \<longrightarrow> Init_checkpoint d s1 = Aborted) \<and>
         startup nodes nameserver role d = Aborted"
proof -
  have c: "Init_checkpoint d s1 = Aborted" if "Init_open d s' = Returned s1" for s' s1
  proof -
    from that have "sync_offset s1 = int (length (sync_log d))"
      by (auto simp: Init_open_def Let_def split: if_splits)
    with assms show ?thesis by (simp add: Init_checkpoint_def Let_def)
  qed
  have i: "Init d s' = Aborted" for s'
    by (cases "Init_open d s'") (simp_all add: Init_def c)
  from c i show ?thesis by (simp add: startup_def split: outcome.splits)
qed

text \<open>The theorem of claim C10 at a concrete input.\<close>

theorem Init_checkpoint_beyond_log_witness:
  "applied stale_disk = Applied_file (le32 5) \<and> 4 \<le> length (le32 5) \<and>
   int (length (sync_log stale_disk)) < sle32 (take 4 (le32 5)) \<and>
   Init stale_disk fresh_standby = Aborted \<and>
   startup [''ns1'', ''ns2''] ''ns2'' ''slave'' stale_disk = Aborted"
proof -
  have h: "applied stale_disk = Applied_file (le32 5)" "4 \<le> length (le32 5)"
    "int (length (sync_log stale_disk)) < sle32 (take 4 (le32 5))"
    by (simp_all add: stale_disk_def bytes_defs)
  from Init_checkpoint_beyond_log [OF h, of fresh_standby "[''ns1'', ''ns2'']" "''ns2''" "''slave''"] h
  show ?thesis by blast
qed

subsection \<open>The standby\<close>

lemma AppendLog_standby_inv:
  assumes "AppendLog s request = Returned (s', response)"
    and "applied_offset s = current_offset s" "log_callback s" "0 \<le> current_offset s"
  shows "applied_offset s' = current_offset s' \<and> log_callback s' \<and> 0 \<le> current_offset s'"
  using assms by (auto simp: AppendLog_def Let_def split: if_splits)

lemma standby_run_inv:
  "standby_run requests s = Returned s' \<Longrightarrow>
   applied_offset s = current_offset s \<Longrightarrow> log_callback s \<Longrightarrow> 0 \<le> current_offset s \<Longrightarrow>
   applied_offset s' = current_offset s' \<and> log_callback s' \<and> 0 \<le> current_offset s'"
proof (induction requests arbitrary: s)
  case Nil
  then show ?case by simp
next
  case (Cons request requests)
  from Cons.prems(1) obtain s1 response where
    a: "AppendLog s request = Returned (s1, response)" and
    r: "standby_run requests s1 = Returned s'"
    by (auto split: outcome.splits)
  from AppendLog_standby_inv [OF a Cons.prems(2-4)] Cons.IH [OF r] show ?case by blast
qed

lemma standby_inv:
  assumes "startup nodes nameserver role d = Returned s0"
    and "standby_run requests s0 = Returned s"
  shows "applied_offset s = current_offset s \<and> log_callback s \<and> 0 \<le> current_offset s"
proof -
  from startup_post [OF assms(1)] have
    "applied_offset s0 = current_offset s0" "log_callback s0" "0 \<le> current_offset s0"
    by simp_all
  from standby_run_inv [OF assms(2) this] show ?thesis .
qed

lemma AppendLog_rejection:
  assumes "AppendLog t request = Returned (t', response)" "\<not> resp_success response"
    "resp_offset response \<noteq> - 1"
  shows "resp_offset response = current_offset t \<and> current_offset t < req_offset request"
  using assms by (auto simp: AppendLog_def Let_def split: if_splits)

text \<open>
  Claim C1. A standby is a node started in a role other than \<open>master\<close> that has
  served any sequence of \<open>AppendLog\<close> requests. On every such node
  \<open>AppendLog(offset, payload)\<close> answers an offset greater than \<open>current_offset_\<close>
  with \<open>success = false\<close> and \<open>offset = current_offset_\<close>, and a smaller one with
  \<open>success = false\<close> and \<open>offset = -1\<close>, both without changing the state. An equal
  offset appends the four bytes of the length and the payload to the log, hands the
  payload to the apply handler, moves \<open>current_offset_\<close> and \<open>applied_offset_\<close>
  forward by \<open>4 + len(payload)\<close> and answers \<open>success = true\<close>.
\<close>

theorem AppendLog_standby:
  assumes "role \<noteq> ''master''"
    and "startup nodes nameserver role d = Returned s0"
    and "standby_run requests s0 = Returned s"
  shows "AppendLog s request =
     (if req_offset request > current_offset s then
        Returned (s, \<lparr>resp_success = False, resp_offset = current_offset s\<rparr>)
      else if req_offset request < current_offset s then
        Returned (s, \<lparr>resp_success = False, resp_offset = - 1\<rparr>)
      else
        Returned
          (s\<lparr>log_file :=
                log_file s @ le32 (int (length (req_log_data request))) @ req_log_data request,
              applied_entries := applied_entries s @ [req_log_data request],
              current_offset := current_offset s + (4 + int (length (req_log_data request))),
              applied_offset := applied_offset s + (4 + int (length (req_log_data request)))\<rparr>,
           \<lparr>resp_success = True, resp_offset = 0\<rparr>))"
proof -
  from standby_inv [OF assms(2,3)] have "applied_offset s = current_offset s" "log_callback s"
    by simp_all
  then show ?thesis
    by (simp add: AppendLog_def Let_def add.commute)
qed

text \<open>The theorem of claim C1 at a concrete input.\<close>

theorem AppendLog_standby_witness:
  "''slave'' \<noteq> ''master'' \<and>
   startup [''ns1'', ''ns2''] ''ns2'' ''slave'' empty_disk = Returned fresh_standby \<and>
   standby_run [] fresh_standby = Returned fresh_standby \<and>
   AppendLog fresh_standby \<lparr>req_offset = 0, req_log_data = ''hello''\<rparr> =
     Returned
       (fresh_standby\<lparr>log_file := le32 5 @ ''hello'', applied_entries := [''hello''],
          current_offset := 9, applied_offset := 9\<rparr>,
        \<lparr>resp_success = True, resp_offset = 0\<rparr>)"
proof -
  have h1: "''slave'' \<noteq> ''master''" by simp
  have h3: "standby_run [] fresh_standby = Returned fresh_standby" by simp
  from AppendLog_standby [OF h1 startup_fresh_standby h3,
      of "\<lparr>req_offset = 0, req_log_data = ''hello''\<rparr>"]
  have "AppendLog fresh_standby \<lparr>req_offset = 0, req_log_data = ''hello''\<rparr> =
     Returned
       (fresh_standby\<lparr>log_file := le32 5 @ ''hello'', applied_entries := [''hello''],
          current_offset := 9, applied_offset := 9\<rparr>,
        \<lparr>resp_success = True, resp_offset = 0\<rparr>)"
    by (simp add: fresh_standby_def)
  with h1 h3 startup_fresh_standby show ?thesis by blast
qed

text \<open>
  Two entries of five and three bytes bring a fresh standby to offset 16; there a
  request for offset 20 is answered with 16 and a request for offset 10 with \<open>-1\<close>.
\<close>

lemma AppendLog_scenarios:
  "standby_run [\<lparr>req_offset = 0, req_log_data = ''AAAAA''\<rparr>,
                \<lparr>req_offset = 9, req_log_data = ''BBB''\<rparr>] fresh_standby =
     Returned (fresh_standby\<lparr>log_file := le32 5 @ ''AAAAA'' @ le32 3 @ ''BBB'',
                 applied_entries := [''AAAAA'', ''BBB''],
                 current_offset := 16, applied_offset := 16\<rparr>)"
  "AppendLog (fresh_standby\<lparr>log_file := le32 5 @ ''AAAAA'' @ le32 3 @ ''BBB'',
                 applied_entries := [''AAAAA'', ''BBB''],
                 current_offset := 16, applied_offset := 16\<rparr>)
       \<lparr>req_offset = 20, req_log_data = ''C''\<rparr> =
     Returned (fresh_standby\<lparr>log_file := le32 5 @ ''AAAAA'' @ le32 3 @ ''BBB'',
                 applied_entries := [''AAAAA'', ''BBB''],
                 current_offset := 16, applied_offset := 16\<rparr>,
               \<lparr>resp_success = False, resp_offset = 16\<rparr>)"
  "AppendLog (fresh_standby\<lparr>log_file := le32 5 @ ''AAAAA'' @ le32 3 @ ''BBB'',
                 applied_entries := [''AAAAA'', ''BBB''],
                 current_offset := 16, applied_offset := 16\<rparr>)
       \<lparr>req_offset = 10, req_log_data = ''C''\<rparr> =
     Returned (fresh_standby\<lparr>log_file := le32 5 @ ''AAAAA'' @ le32 3 @ ''BBB'',
                 applied_entries := [''AAAAA'', ''BBB''],
                 current_offset := 16, applied_offset := 16\<rparr>,
               \<lparr>resp_success = False, resp_offset = - 1\<rparr>)"
  by (simp_all add: AppendLog_def fresh_standby_def Let_def)

subsection \<open>Promotion\<close>

text \<open>
  Claim C9. \<open>SwitchToLeader\<close> sets \<open>is_leader_\<close>, resets \<open>sync_offset_\<close> to 0,
  moves the read descriptor to the start of the log, exchanges \<open>master_addr_\<close> and
  \<open>slave_addr_\<close>, binds the stub to the new standby and starts \<open>BackgroundLog\<close>;
  \<open>current_offset_\<close> and \<open>applied_offset_\<close> stay as they are.
\<close>

theorem SwitchToLeader_promotes:
  "is_leader (SwitchToLeader s) \<and>
   sync_offset (SwitchToLeader s) = 0 \<and>
   read_log (SwitchToLeader s) = 0 \<and>
   master_addr (SwitchToLeader s) = slave_addr s \<and>
   slave_addr (SwitchToLeader s) = master_addr s \<and>
   slave_stub (SwitchToLeader s) = Some (master_addr s) \<and>
   worker_starts (SwitchToLeader s) = Suc (worker_starts s) \<and>
   current_offset (SwitchToLeader s) = current_offset s \<and>
   applied_offset (SwitchToLeader s) = applied_offset s \<and>
   log_file (SwitchToLeader s) = log_file s \<and>
   master_only (SwitchToLeader s) = master_only s \<and>
   callbacks (SwitchToLeader s) = callbacks s"
  by (simp add: SwitchToLeader_def Let_def lseek_set_def)

subsection \<open>The blocking commit\<close>

lemma PorcessCallbck_exit_id [simp]: "PorcessCallbck_exit s offset len = s"
  by (cases s) (simp add: PorcessCallbck_exit_def)

lemma PorcessCallbck_fields:
  "is_leader (PorcessCallbck s offset len tc) = is_leader s \<and>
   log_file (PorcessCallbck s offset len tc) = log_file s \<and>
   current_offset (PorcessCallbck s offset len tc) = current_offset s \<and>
   read_log (PorcessCallbck s offset len tc) = read_log s \<and>
   sync_offset (PorcessCallbck s offset len tc) = sync_offset s \<and>
   timeout_tasks (PorcessCallbck s offset len tc) = timeout_tasks s \<and>
   sent (PorcessCallbck s offset len tc) = sent s \<and>
   (master_only s \<longrightarrow> master_only (PorcessCallbck s offset len tc)) \<and>
   (\<not> tc \<longrightarrow> master_only (PorcessCallbck s offset len tc) = master_only s) \<and>
   applied_offset (PorcessCallbck s offset len tc) \<le> max (applied_offset s) (offset + len) \<and>
   applied_offset s \<le> applied_offset (PorcessCallbck s offset len tc)"
  by (auto simp: PorcessCallbck_def Let_def split: option.splits)

lemma LogLocal_leader:
  "is_leader s \<Longrightarrow>
   LogLocal s entry =
     Returned (s\<lparr>log_file := log_file s @ le32 (int (length entry)) @ entry\<rparr>,
               int (length entry) + 4)"
  by (simp add: LogLocal_def IsLeader_def Let_def)

lemma LogLocal_standby: "\<not> is_leader s \<Longrightarrow> LogLocal s entry = Aborted"
  by (simp add: LogLocal_def IsLeader_def)

lemma Log_append_leader:
  "is_leader s \<Longrightarrow>
   Log_append s entry =
     Returned (s\<lparr>log_file := log_file s @ le32 (int (length entry)) @ entry,
                 current_offset := current_offset s + (int (length entry) + 4)\<rparr>,
               current_offset s)"
  by (simp add: Log_append_def LogLocal_leader Let_def)

lemma Log_wait_true:
  "\<exists>s' path. Log_wait stop_point after rs s = (s', True, path) \<and> path \<noteq> Fast_path \<and>
     (path = Timed_out \<longrightarrow> master_only s')"
  by (induction rs arbitrary: s) (auto simp: Let_def Log_timeout_def)

text \<open>
  Claim C4. On a leader the blocking \<open>Log(entry, timeout_ms)\<close> returns \<open>true\<close> for
  every entry, every timeout and every schedule, whichever path it takes: the test of
  line 103, the wake-up with equal offsets, or the fall through below the loop, which
  also sets \<open>master_only_\<close>. On no node does it return \<open>false\<close>: off the leader
  \<open>LogLocal\<close> ends the process.
\<close>

theorem Log_returns_true:
  "(is_leader s \<longrightarrow>
      (\<exists>s' path. Log_traced sc s entry timeout_ms = Returned (s', True, path) \<and>
          Log sc s entry timeout_ms = Returned (s', True) \<and>
          (path = Timed_out \<longrightarrow> master_only s'))) \<and>
   (\<forall>s'. Log sc s entry timeout_ms \<noteq> Returned (s', False))"
proof (cases "is_leader s")
  case False
  then have "Log_traced sc s entry timeout_ms = Aborted"
    by (simp add: Log_traced_def Log_append_def LogLocal_standby)
  with False show ?thesis by (simp add: Log_def)
next
  case True
  define s2 where
    "s2 = others_first sc
       (s\<lparr>log_file := log_file s @ le32 (int (length entry)) @ entry,
          current_offset := current_offset s + (int (length entry) + 4)\<rparr>)"
  show ?thesis
  proof (cases "master_only s2 \<and> sync_offset s2 < current_offset s")
    case fast: True
    with True have "Log_traced sc s entry timeout_ms =
        Returned (Log_no_wait (others_passed sc s2), True, Fast_path)"
      by (simp add: Log_traced_def Log_append_leader Let_def s2_def)
    with True show ?thesis by (simp add: Log_def)
  next
    case slow: False
    obtain s' path where
      w: "Log_wait (start_point sc + wrap_int (timeout_ms * 1000)) (others_last sc) (rounds sc) s2 =
            (s', True, path)"
         "path = Timed_out \<longrightarrow> master_only s'"
      using Log_wait_true by blast
    from slow True w(1) have "Log_traced sc s entry timeout_ms = Returned (s', True, path)"
      by (auto simp: Log_traced_def Log_append_leader Let_def s2_def)
    with True w(2) show ?thesis by (simp add: Log_def)
  qed
qed

text \<open>The theorem of claim C4 at a concrete input.\<close>

theorem Log_returns_true_witness:
  "is_leader fresh_leader \<and>
   Log alone fresh_leader ''a'' 100 =
     Returned (fresh_leader\<lparr>master_only := True, log_file := le32 1 @ ''a'',
                 current_offset := 5\<rparr>, True) \<and>
   Log_traced alone fresh_leader ''a'' 100 =
     Returned (fresh_leader\<lparr>master_only := True, log_file := le32 1 @ ''a'',
                 current_offset := 5\<rparr>, True, Timed_out)"
proof -
  have l: "is_leader fresh_leader" by (simp add: fresh_leader_def)
  have t: "Log_traced alone fresh_leader ''a'' 100 =
     Returned (fresh_leader\<lparr>master_only := True, log_file := le32 1 @ ''a'',
                 current_offset := 5\<rparr>, True, Timed_out)"
    by (simp add: Log_traced_def leader_defs alone_def fresh_leader_def Let_def wrap_int_def)
  from Log_returns_true [of fresh_leader alone "''a''" 100] l t show ?thesis
    by auto
qed


text \<open>
  A leader in degraded mode whose standby has nothing: the state after
  \<open>Log(''a'', 100)\<close> has timed out on a fresh leader.
\<close>

lemma Log_alone:
  "Log alone fresh_leader ''a'' 100 = Returned (degraded_leader, True)"
  by (simp add: Log_def Log_traced_def leader_defs alone_def fresh_leader_def degraded_leader_def
      Let_def wrap_int_def)

lemma acknowledged_first:
  assumes "s1 = degraded_leader\<lparr>log_file := le32 1 @ ''a'' @ le32 1 @ ''b'', current_offset := 10\<rparr>"
  shows "others_first acknowledged s1 =
     s1\<lparr>read_log := 10, sync_offset := 5, sent := [(0, ''a''), (5, ''b'')]\<rparr>"
proof -
  have r1: "ReadEntry (log_file s1) 0 = Returned (5, Some ''a'')"
    using ReadEntry_written [of 0 "''a''" "log_file s1" "le32 1 @ ''b''"]
    by (simp add: assms degraded_leader_def fresh_leader_def)
  have r2: "ReadEntry (log_file s1) 5 = Returned (10, Some ''b'')"
    using ReadEntry_written [of 5 "''b''" "log_file s1" "[]"]
    by (simp add: assms degraded_leader_def fresh_leader_def)
  have f: "sync_offset s1 = 0" "current_offset s1 = 10" "read_log s1 = 0" "callbacks s1 = Map.empty"
    "master_only s1" "sent s1 = []"
    by (simp_all add: assms degraded_leader_def fresh_leader_def)
  have "ReplicateLog [Reply True 0] s1 =
     Drain_retrying (s1\<lparr>read_log := 10, sync_offset := 5, sent := [(0, ''a''), (5, ''b'')]\<rparr>)"
    by (simp add: ReplicateLog.simps [of _ s1] f r1 ReplicateLog_response_def
        ReplicateLog_success_def ReplicateLog_advance_def PorcessCallbck_def Let_def)
      (simp add: ReplicateLog.simps f r2)
  thus ?thesis by (simp add: acknowledged_def)
qed

text \<open>
  Claim C7, as stated, fails. \<open>Log(''b'', 100)\<close> is called on a leader whose flag
  \<open>master_only_\<close> is set and whose \<open>sync_offset_\<close>, 0, is below the offset 5 at which
  the new entry starts. Between the unlock of line 101 and the test of line 103 the
  standby acknowledges the entry before: \<open>sync_offset_\<close> is 5 at the test, the test
  fails, the caller sleeps in \<open>TimeWait\<close> until the timeout and returns below the loop,
  and \<open>applied_offset_\<close> is still 0 where \<open>current_offset_\<close> is 10.
\<close>

theorem Log_master_only_counterexample:
  "is_leader degraded_leader \<and> master_only degraded_leader \<and>
   sync_offset degraded_leader < current_offset degraded_leader \<and>
   Log_append degraded_leader ''b'' =
     Returned (degraded_leader\<lparr>log_file := le32 1 @ ''a'' @ le32 1 @ ''b'',
                 current_offset := 10\<rparr>, current_offset degraded_leader) \<and>
   Log_traced acknowledged degraded_leader ''b'' 100 =
     Returned (acknowledged_leader, True, Timed_out) \<and>
   applied_offset acknowledged_leader = 0 \<and> current_offset acknowledged_leader = 10"
proof -
  have l: "is_leader degraded_leader" by (simp add: degraded_leader_def fresh_leader_def)
  have a: "Log_append degraded_leader ''b'' =
     Returned (degraded_leader\<lparr>log_file := le32 1 @ ''a'' @ le32 1 @ ''b'',
                 current_offset := 10\<rparr>, 5)"
    by (simp add: Log_append_leader [OF l]) (simp add: degraded_leader_def fresh_leader_def)
  define s1 where
    "s1 = degraded_leader\<lparr>log_file := le32 1 @ ''a'' @ le32 1 @ ''b'', current_offset := 10\<rparr>"
  define s2 where
    "s2 = s1\<lparr>read_log := 10, sync_offset := 5, sent := [(0, ''a''), (5, ''b'')]\<rparr>"
  have f: "others_first acknowledged s1 = s2"
    unfolding s2_def by (rule acknowledged_first [OF s1_def])
  have sc: "others_last acknowledged = id" "start_point acknowledged = 0"
    "rounds acknowledged =
       [\<lparr>others_before = id, now = 1, others_waiting = id, signalled = False\<rparr>]"
    by (simp_all add: acknowledged_def)
  have s2: "master_only s2" "sync_offset s2 = 5" "current_offset s2 = 10"
    by (simp_all add: s2_def s1_def degraded_leader_def fresh_leader_def)
  have e: "Log_timeout s2 = acknowledged_leader"
    by (simp add: Log_timeout_def s2_def s1_def degraded_leader_def fresh_leader_def
        acknowledged_leader_def)
  have t: "Log_traced acknowledged degraded_leader ''b'' 100 =
     Returned (acknowledged_leader, True, Timed_out)"
    unfolding Log_traced_def a s1_def [symmetric]
    by (simp add: Let_def f sc s2 e wrap_int_def)
  from l a t show ?thesis
    by (simp add: degraded_leader_def fresh_leader_def acknowledged_leader_def)
qed

text \<open>
  Claim C7, amended: the flag and \<open>sync_offset_\<close> are read by the test of line 103,
  after the unlock, not at the call. For every blocking \<open>Log\<close> that finds
  \<open>master_only_\<close> set and \<open>sync_offset_\<close> below the offset at which its entry starts
  when it makes that test, whatever the other threads have done before the test and
  whatever they do between the test and line 105: the call returns \<open>true\<close> by line
  106 without entering the wait loop, and line 105 has made \<open>applied_offset_\<close> equal
  to \<open>current_offset_\<close>. The offset at which the entry starts is \<open>current_offset_\<close>
  at the call.
\<close>

theorem Log_master_only_no_wait:
  assumes "Log_append s entry = Returned (s1, last_offset)"
    and "master_only (others_first sc s1)"
    and "sync_offset (others_first sc s1) < last_offset"
  shows "last_offset = current_offset s \<and>
         Log_traced sc s entry timeout_ms =
           Returned (Log_no_wait (others_passed sc (others_first sc s1)), True, Fast_path) \<and>
         Log sc s entry timeout_ms =
           Returned (Log_no_wait (others_passed sc (others_first sc s1)), True) \<and>
         applied_offset (Log_no_wait (others_passed sc (others_first sc s1))) =
           current_offset (Log_no_wait (others_passed sc (others_first sc s1)))"
proof -
  from assms(1) have "is_leader s"
    by (cases "is_leader s") (simp_all add: Log_append_def LogLocal_standby)
  with assms(1) have l: "last_offset = current_offset s"
    by (auto simp: Log_append_leader)
  from assms have
    "Log_traced sc s entry timeout_ms =
       Returned (Log_no_wait (others_passed sc (others_first sc s1)), True, Fast_path)"
    by (simp add: Log_traced_def Let_def)
  with l show ?thesis by (simp add: Log_def Log_no_wait_def)
qed

text \<open>The theorem of claim C7 at a concrete input.\<close>

theorem Log_master_only_no_wait_witness:
  "Log_append degraded_leader ''b'' =
     Returned (degraded_leader\<lparr>log_file := le32 1 @ ''a'' @ le32 1 @ ''b'',
                 current_offset := 10\<rparr>, 5) \<and>
   master_only (others_first alone
     (degraded_leader\<lparr>log_file := le32 1 @ ''a'' @ le32 1 @ ''b'', current_offset := 10\<rparr>)) \<and>
   sync_offset (others_first alone
     (degraded_leader\<lparr>log_file := le32 1 @ ''a'' @ le32 1 @ ''b'', current_offset := 10\<rparr>)) < 5 \<and>
   Log_traced alone degraded_leader ''b'' 100 = Returned (lagging_leader, True, Fast_path) \<and>
   Log alone degraded_leader ''b'' 100 = Returned (lagging_leader, True) \<and>
   applied_offset lagging_leader = current_offset lagging_leader"
proof -
  define s1 where
    "s1 = degraded_leader\<lparr>log_file := le32 1 @ ''a'' @ le32 1 @ ''b'', current_offset := 10\<rparr>"
  have l: "is_leader degraded_leader" by (simp add: degraded_leader_def fresh_leader_def)
  have h1: "Log_append degraded_leader ''b'' = Returned (s1, 5)"
    by (simp add: Log_append_leader [OF l]) (simp add: s1_def degraded_leader_def fresh_leader_def)
  have h2: "master_only (others_first alone s1)"
    and h3: "sync_offset (others_first alone s1) < 5"
    by (simp_all add: alone_def s1_def degraded_leader_def fresh_leader_def)
  have e: "Log_no_wait (others_passed alone (others_first alone s1)) = lagging_leader"
    by (simp add: Log_no_wait_def alone_def s1_def lagging_leader_def degraded_leader_def
        fresh_leader_def)
  from Log_master_only_no_wait [OF h1 h2 h3, of 100]
  have r: "Log_traced alone degraded_leader ''b'' 100 = Returned (lagging_leader, True, Fast_path)"
    "Log alone degraded_leader ''b'' 100 = Returned (lagging_leader, True)"
    "applied_offset lagging_leader = current_offset lagging_leader"
    unfolding e by simp_all
  from h1 h2 h3 r show ?thesis unfolding s1_def by blast
qed

subsection \<open>Records cut short\<close>






subsection \<open>The loop of the Replicator\<close>

lemma SendRequest_Nil:
  "SendRequest [] s entry = Drain_retrying (s\<lparr>sent := sent s @ [(sync_offset s, entry)]\<rparr>)"
  by simp

lemma SendRequest_rejected:
  assumes "0 \<le> offset" "offset < current_offset s"
  shows "SendRequest (Reply False offset # rs) s entry =
     (case ReadEntry (log_file s) offset of
        Aborted \<Rightarrow> Drain_aborted
      | Returned (pos, None) \<Rightarrow>
          Drain_returned
            (s\<lparr>sent := sent s @ [(sync_offset s, entry)], sync_offset := offset, read_log := pos\<rparr>)
      | Returned (pos, Some e) \<Rightarrow>
          SendRequest rs
            (s\<lparr>sent := sent s @ [(sync_offset s, entry)], sync_offset := offset, read_log := pos\<rparr>)
            e)"
proof -
  define s1 where
    "s1 = s\<lparr>sent := sent s @ [(sync_offset s, entry)], sync_offset := offset, read_log := offset\<rparr>"
  have m: "ReplicateLog_response (s\<lparr>sent := sent s @ [(sync_offset s, entry)]\<rparr>) entry False offset =
      Returned s1"
    using assms(1)
    by (simp add: ReplicateLog_response_def ReplicateLog_mismatch_def lseek_set_def Let_def s1_def)
  have f: "sync_offset s1 < current_offset s1" "log_file s1 = log_file s" "read_log s1 = offset"
    using assms(2) by (simp_all add: s1_def)
  have "SendRequest (Reply False offset # rs) s entry = ReplicateLog rs s1"
    by (simp add: m)
  also have "\<dots> =
     (case ReadEntry (log_file s) offset of
        Aborted \<Rightarrow> Drain_aborted
      | Returned (pos, None) \<Rightarrow>
          Drain_returned
            (s\<lparr>sent := sent s @ [(sync_offset s, entry)], sync_offset := offset, read_log := pos\<rparr>)
      | Returned (pos, Some e) \<Rightarrow>
          SendRequest rs
            (s\<lparr>sent := sent s @ [(sync_offset s, entry)], sync_offset := offset, read_log := pos\<rparr>)
            e)"
    using f by (simp add: ReplicateLog.simps [of rs s1] split: outcome.splits option.splits)
      (simp add: s1_def)
  finally show ?thesis .
qed

text \<open>
  Claim C8. The response comes from the standby's \<open>AppendLog\<close>, to a request that
  carries \<open>sync_offset_\<close> from inside the loop of \<open>ReplicateLog\<close>, where
  \<open>sync_offset_\<close> is below \<open>current_offset_\<close> (lines 237--241). When it has
  \<open>success = false\<close> and an offset other than \<open>-1\<close>, lines 264--269 set
  \<open>sync_offset_\<close> to that offset and move the read descriptor to it. The loop goes
  on from there: its next step is to read the record that starts at that offset, and
  the entry of that record is the next one that \<open>SendRequest\<close> is called with, in a
  request that carries the offset of the response.
\<close>

theorem ReplicateLog_resync:
  assumes "startup nodes nameserver role d = Returned t0"
    and "standby_run requests t0 = Returned t"
    and "sync_offset s < current_offset s"
    and "AppendLog t \<lparr>req_offset = sync_offset s, req_log_data = entry\<rparr> = Returned (t', response)"
    and "\<not> resp_success response" "resp_offset response \<noteq> - 1"
  shows "ReplicateLog_mismatch s (resp_offset response) =
           Returned (s\<lparr>sync_offset := resp_offset response, read_log := resp_offset response\<rparr>) \<and>
         SendRequest (Reply (resp_success response) (resp_offset response) # rs) s entry =
           (case ReadEntry (log_file s) (resp_offset response) of
              Aborted \<Rightarrow> Drain_aborted
            | Returned (pos, None) \<Rightarrow>
                Drain_returned
                  (s\<lparr>sent := sent s @ [(sync_offset s, entry)],
                     sync_offset := resp_offset response, read_log := pos\<rparr>)
            | Returned (pos, Some e) \<Rightarrow>
                SendRequest rs
                  (s\<lparr>sent := sent s @ [(sync_offset s, entry)],
                     sync_offset := resp_offset response, read_log := pos\<rparr>) e) \<and>
         (\<forall>pos e. ReadEntry (log_file s) (resp_offset response) = Returned (pos, Some e) \<longrightarrow>
            SendRequest [Reply (resp_success response) (resp_offset response)] s entry =
              Drain_retrying
                (s\<lparr>sent := sent s @ [(sync_offset s, entry), (resp_offset response, e)],
                   sync_offset := resp_offset response, read_log := pos\<rparr>))"
proof -
  from standby_inv [OF assms(1,2)] have "0 \<le> current_offset t" by simp
  with AppendLog_rejection [OF assms(4-6)] have
    r: "0 \<le> resp_offset response" "resp_offset response < sync_offset s"
    by simp_all
  from r(1) assms(6) have
    m: "ReplicateLog_mismatch s (resp_offset response) =
           Returned (s\<lparr>sync_offset := resp_offset response, read_log := resp_offset response\<rparr>)"
    by (simp add: ReplicateLog_mismatch_def lseek_set_def Let_def)
  from r(2) assms(3) have c: "resp_offset response < current_offset s" by simp
  note e = SendRequest_rejected [OF r(1) c, of _ entry]
  from m e assms(5) show ?thesis
    by (simp add: SendRequest_Nil)
qed

text \<open>The theorem of claim C8 at a concrete input.\<close>

theorem ReplicateLog_resync_witness:
  "startup [''ns1'', ''ns2''] ''ns2'' ''slave'' empty_disk = Returned fresh_standby \<and>
   standby_run [] fresh_standby = Returned fresh_standby \<and>
   sync_offset sending_leader < current_offset sending_leader \<and>
   AppendLog fresh_standby \<lparr>req_offset = sync_offset sending_leader, req_log_data = ''b''\<rparr> =
     Returned (fresh_standby, \<lparr>resp_success = False, resp_offset = 0\<rparr>) \<and>
   \<not> resp_success \<lparr>resp_success = False, resp_offset = 0\<rparr> \<and>
   resp_offset \<lparr>resp_success = False, resp_offset = 0\<rparr> \<noteq> - 1 \<and>
   ReadEntry (log_file sending_leader) 0 = Returned (5, Some ''a'') \<and>
   ReplicateLog_mismatch sending_leader 0 =
     Returned (sending_leader\<lparr>sync_offset := 0, read_log := 0\<rparr>) \<and>
   SendRequest [Reply False 0] sending_leader ''b'' =
     Drain_retrying
       (sending_leader\<lparr>sent := [(0, ''a''), (5, ''b''), (0, ''a'')], sync_offset := 0,
          read_log := 5\<rparr>)"
proof -
  have h2: "standby_run [] fresh_standby = Returned fresh_standby" by simp
  have h3: "sync_offset sending_leader < current_offset sending_leader"
    by (simp add: sending_leader_def fresh_leader_def)
  have h4: "AppendLog fresh_standby \<lparr>req_offset = sync_offset sending_leader, req_log_data = ''b''\<rparr> =
     Returned (fresh_standby, \<lparr>resp_success = False, resp_offset = 0\<rparr>)"
    by (simp add: AppendLog_def fresh_standby_def sending_leader_def fresh_leader_def)
  have h5: "\<not> resp_success \<lparr>resp_success = False, resp_offset = 0\<rparr>"
    and h6: "resp_offset \<lparr>resp_success = False, resp_offset = 0\<rparr> \<noteq> - 1"
    by simp_all
  have r: "ReadEntry (log_file sending_leader) 0 = Returned (5, Some ''a'')"
    using ReadEntry_written [of 0 "''a''" "log_file sending_leader" "le32 1 @ ''b''"]
    by (simp add: sending_leader_def fresh_leader_def)
  have f: "sent sending_leader = [(0, ''a'')]" "sync_offset sending_leader = 5"
    by (simp_all add: sending_leader_def fresh_leader_def)
  from ReplicateLog_resync [OF startup_fresh_standby h2 h3 h4 h5 h6, of "[]"] r
  have "ReplicateLog_mismatch sending_leader 0 =
     Returned (sending_leader\<lparr>sync_offset := 0, read_log := 0\<rparr>)"
    "SendRequest [Reply False 0] sending_leader ''b'' =
     Drain_retrying
       (sending_leader\<lparr>sent := [(0, ''a''), (5, ''b''), (0, ''a'')], sync_offset := 0,
          read_log := 5\<rparr>)"
    by (simp_all add: f)
  with startup_fresh_standby h2 h3 h4 h5 h6 r show ?thesis by blast
qed

text \<open>
  An offset below \<open>-1\<close>, which no \<open>AppendLog\<close> sends, makes \<open>lseek\<close> fail and
  with it the assertion of line 267.
\<close>

lemma ReplicateLog_mismatch_negative:
  "offset < - 1 \<Longrightarrow> ReplicateLog_mismatch s offset = Aborted"
  by (simp add: ReplicateLog_mismatch_def lseek_set_def)

subsection \<open>The watermarks of the leader\<close>

text \<open>Every step keeps \<open>process_inv\<close>.\<close>

lemma process_inv_boot:
  assumes "boot nodes nameserver ''master'' d = Returned p"
  shows "process_inv p"
proof -
  from assms obtain s where
    s: "startup nodes nameserver ''master'' d = Returned s" and
    p: "p = \<lparr>obj = s, worker = (if IsLeader s then At_wait else No_worker), callers = []\<rparr>"
    by (auto simp: boot_def split: outcome.splits)
  from startup_post [OF s] show ?thesis
    by (simp add: process_inv_def p IsLeader_def in_flight_def request_offset_def)
qed

lemma process_inv_move_caller [simp]: "process_inv (move_caller p n c) = process_inv p"
  by (simp add: process_inv_def move_caller_def)

lemma process_inv_obj:
  assumes "process_inv p"
    and "is_leader s" "log_file s = log_file (obj p)" "current_offset s = current_offset (obj p)"
    and "read_log s = read_log (obj p)" "sync_offset s = sync_offset (obj p)"
    and "timeout_tasks s = timeout_tasks (obj p)" "applied_offset s \<le> current_offset s"
  shows "process_inv (p\<lparr>obj := s\<rparr>)"
  using assms by (simp add: process_inv_def)

lemma process_inv_update:
  assumes "process_inv p"
    and "is_leader s" "log_file s = log_file (obj p)" "current_offset s = current_offset (obj p)"
    and "timeout_tasks s = timeout_tasks (obj p)" "applied_offset s \<le> current_offset s"
    and "0 \<le> read_log s" "read_log s \<le> current_offset s"
    and "request_offset w (sync_offset s) = sync_offset s"
    and "sync_offset s + in_flight w \<le> read_log s"
  shows "process_inv (p\<lparr>obj := s, worker := w\<rparr>)"
  using assms by (simp add: process_inv_def)

lemma process_inv_Log_append:
  assumes "process_inv p" "Log_append (obj p) entry = Returned (s1, last_offset)"
  shows "process_inv (p\<lparr>obj := s1, callers := cs\<rparr>)"
proof -
  from assms(1) have l: "is_leader (obj p)" by (simp add: process_inv_def)
  from assms(2) have s1: "s1 = (obj p)\<lparr>log_file := log_file (obj p) @ le32 (int (length entry)) @ entry,
        current_offset := current_offset (obj p) + (int (length entry) + 4)\<rparr>"
    by (auto simp: Log_append_leader [OF l])
  from assms(1) show ?thesis
    unfolding process_inv_def s1 by (simp add: Ball_def) fastforce
qed

lemma process_inv_Log_async:
  assumes "process_inv p" "Log_async (obj p) entry c = Returned s1"
  shows "process_inv (p\<lparr>obj := s1\<rparr>)"
proof -
  from assms(1) have l: "is_leader (obj p)" by (simp add: process_inv_def)
  from assms(2) l have f: "is_leader s1"
    "log_file s1 = log_file (obj p) @ le32 (int (length entry)) @ entry"
    "current_offset s1 = current_offset (obj p) + (int (length entry) + 4)"
    "read_log s1 = read_log (obj p)" "sync_offset s1 = sync_offset (obj p)"
    "applied_offset s1 \<le> max (applied_offset (obj p)) (current_offset (obj p))"
    "set (timeout_tasks s1) \<subseteq>
       set (timeout_tasks (obj p)) \<union> {(current_offset (obj p), int (length entry) + 4)}"
    by (auto simp: Log_async_def LogLocal_leader Let_def split: if_splits)
  from assms(1) have t: "\<forall>(offset, len) \<in> set (timeout_tasks (obj p)).
      offset + len \<le> current_offset (obj p)"
    by (simp add: process_inv_def)
  have "\<forall>(offset, len) \<in> set (timeout_tasks s1). offset + len \<le> current_offset s1"
  proof (clarify)
    fix offset len assume "(offset, len) \<in> set (timeout_tasks s1)"
    with f(7) have "(offset, len) \<in> set (timeout_tasks (obj p)) \<or>
        (offset, len) = (current_offset (obj p), int (length entry) + 4)" by auto
    with t show "offset + len \<le> current_offset s1" unfolding f(3) by fastforce
  qed
  with assms(1) f(1-6) show ?thesis
    by (simp add: process_inv_def)
qed

lemma process_inv_timeout_task:
  assumes "process_inv p"
  shows "process_inv (p\<lparr>obj := run_timeout_task (obj p) n\<rparr>)"
proof (cases "n < length (timeout_tasks (obj p))")
  case False
  with assms show ?thesis by (simp add: run_timeout_task_def)
next
  case True
  define s where "s = obj p"
  obtain offset len where t: "timeout_tasks s ! n = (offset, len)"
    by (cases "timeout_tasks s ! n")
  define s1 where
    "s1 = s\<lparr>timeout_tasks := take n (timeout_tasks s) @ drop (Suc n) (timeout_tasks s)\<rparr>"
  from True t have r: "run_timeout_task (obj p) n = PorcessCallbck s1 offset len True"
    by (simp add: run_timeout_task_def s1_def s_def)
  from assms have b: "\<forall>(offset, len) \<in> set (timeout_tasks s). offset + len \<le> current_offset s"
    by (simp add: process_inv_def s_def)
  from True have "timeout_tasks s ! n \<in> set (timeout_tasks s)" by (simp add: s_def)
  with b t have ol: "offset + len \<le> current_offset s" by fastforce
  have sub: "set (timeout_tasks s1) \<subseteq> set (timeout_tasks s)"
    by (auto simp: s1_def dest: in_set_takeD in_set_dropD)
  define q where "q = PorcessCallbck s1 offset len True"
  from PorcessCallbck_fields [of s1 offset len True] have
    f: "is_leader q = is_leader s" "log_file q = log_file s"
      "current_offset q = current_offset s" "read_log q = read_log s"
      "sync_offset q = sync_offset s" "timeout_tasks q = timeout_tasks s1"
    and a: "applied_offset q \<le> max (applied_offset s) (offset + len)"
    by (simp_all add: q_def s1_def)
  from b sub have b1: "\<forall>(offset, len) \<in> set (timeout_tasks s1). offset + len \<le> current_offset s"
    by blast
  from assms have i: "is_leader s" "int (length (log_file s)) = current_offset s"
    "0 \<le> read_log s" "read_log s \<le> current_offset s" "applied_offset s \<le> current_offset s"
    "request_offset (worker p) (sync_offset s) = sync_offset s"
    "sync_offset s + in_flight (worker p) \<le> read_log s"
    by (simp_all add: process_inv_def s_def)
  from a i(5) ol have "applied_offset q \<le> current_offset s" by simp
  with i b1 have "process_inv (p\<lparr>obj := q\<rparr>)"
    by (simp add: process_inv_def f)
  thus ?thesis unfolding r q_def .
qed

lemma process_inv_worker_step:
  assumes "process_inv p" "worker_step p = Returned p'"
  shows "process_inv p'"
proof (cases "worker p")
  case At_read
  define s where "s = obj p"
  from assms(1) have i: "0 \<le> read_log s" "int (length (log_file s)) = current_offset s"
    "sync_offset s \<le> read_log s"
    by (simp_all add: process_inv_def s_def At_read in_flight_def)
  from assms(2) At_read have "ReadEntry (log_file s) (read_log s) \<noteq> Aborted"
    by (auto simp: worker_step_def s_def Let_def)
  then obtain pos e where
    r: "ReadEntry (log_file s) (read_log s) = Returned (pos, e)"
    by (metis outcome.exhaust surj_pair)
  show ?thesis
  proof (cases e)
    case None
    from ReadEntry_None [OF r [unfolded None] i(1)] i
    have "0 \<le> pos" "pos \<le> current_offset s" "sync_offset s \<le> pos" by simp_all
    moreover from assms(2) At_read r None
    have "p' = p\<lparr>obj := s\<lparr>read_log := pos\<rparr>, worker := At_wait\<rparr>"
      by (simp add: worker_step_def s_def Let_def)
    ultimately show ?thesis using assms(1)
      by (simp add: process_inv_def s_def in_flight_def request_offset_def)
  next
    case (Some entry)
    from ReadEntry_Some [OF r [unfolded Some] i(1)] i
    have "0 \<le> pos" "pos \<le> current_offset s" "sync_offset s + (4 + int (length entry)) \<le> pos"
      by simp_all
    moreover from assms(2) At_read r Some
    have "p' = p\<lparr>obj := s\<lparr>read_log := pos\<rparr>, worker := At_send entry (sync_offset s)\<rparr>"
      by (simp add: worker_step_def s_def Let_def)
    ultimately show ?thesis using assms(1)
      by (simp add: process_inv_def s_def in_flight_def request_offset_def)
  qed
next
  case (At_callback entry)
  define s where "s = obj p"
  define q where "q = PorcessCallbck s (sync_offset s) (int (length entry) + 4) False"
  from PorcessCallbck_fields [of s "sync_offset s" "int (length entry) + 4" False] have
    f: "is_leader q = is_leader s" "log_file q = log_file s"
      "current_offset q = current_offset s" "read_log q = read_log s"
      "sync_offset q = sync_offset s" "timeout_tasks q = timeout_tasks s"
    and a: "applied_offset q \<le> max (applied_offset s) (sync_offset s + (int (length entry) + 4))"
    by (simp_all add: q_def)
  from assms(2) At_callback have p': "p' = p\<lparr>obj := q, worker := At_advance entry\<rparr>"
    by (simp add: worker_step_def s_def q_def Let_def)
  from assms(1) At_callback have i: "is_leader s" "int (length (log_file s)) = current_offset s"
    "0 \<le> read_log s" "read_log s \<le> current_offset s" "applied_offset s \<le> current_offset s"
    "\<forall>(offset, len) \<in> set (timeout_tasks s). offset + len \<le> current_offset s"
    "sync_offset s + (4 + int (length entry)) \<le> read_log s"
    by (simp_all add: process_inv_def s_def in_flight_def)
  from a i(4,5,7) have "applied_offset q \<le> current_offset s" by simp
  with i show ?thesis
    unfolding p' by (simp add: process_inv_def f in_flight_def request_offset_def)
next
  case (At_advance entry)
  with assms(2) have
    p': "p' = p\<lparr>obj := ReplicateLog_advance (obj p) entry, worker := At_test\<rparr>"
    by (simp add: worker_step_def Let_def)
  from assms(1) At_advance have
    i: "is_leader (obj p)" "0 \<le> read_log (obj p)" "read_log (obj p) \<le> current_offset (obj p)"
    "applied_offset (obj p) \<le> current_offset (obj p)"
    "sync_offset (obj p) + (4 + int (length entry)) \<le> read_log (obj p)"
    by (simp_all add: process_inv_def in_flight_def)
  show ?thesis
    unfolding p'
    by (rule process_inv_update [OF assms(1)])
      (use i in \<open>simp_all add: ReplicateLog_advance_def Let_def in_flight_def request_offset_def\<close>)
next
  case At_done
  with assms(2) have p': "p' = p\<lparr>obj := ReplicateLog_done (obj p), worker := At_wait\<rparr>"
    by (simp add: worker_step_def Let_def)
  from assms(1) At_done have
    i: "is_leader (obj p)" "0 \<le> read_log (obj p)" "read_log (obj p) \<le> current_offset (obj p)"
    "sync_offset (obj p) \<le> read_log (obj p)"
    by (simp_all add: process_inv_def in_flight_def)
  show ?thesis
    unfolding p'
    by (rule process_inv_update [OF assms(1)])
      (use i in \<open>simp_all add: ReplicateLog_done_def in_flight_def request_offset_def\<close>)
next
  case No_worker
  with assms show ?thesis by (simp add: worker_step_def Let_def)
next
  case Exited
  with assms show ?thesis by (simp add: worker_step_def Let_def)
next
  case At_wait
  with assms show ?thesis
    by (auto simp: worker_step_def process_inv_def in_flight_def request_offset_def Let_def
        split: if_splits)
next
  case At_test
  with assms show ?thesis
    by (auto simp: worker_step_def process_inv_def in_flight_def request_offset_def Let_def
        split: if_splits)
next
  case At_lock
  with assms show ?thesis
    by (auto simp: worker_step_def process_inv_def in_flight_def request_offset_def Let_def
        split: if_splits)
next
  case (At_send entry offset)
  with assms show ?thesis by (simp add: worker_step_def Let_def)
qed

lemma answer_rejection:
  assumes "answer t (At_send entry offset) = Some (False, response_offset)"
  shows "response_offset = - 1 \<or> response_offset < offset"
  using assms by (auto simp: answer_def AppendLog_def Let_def split: if_splits)

lemma process_inv_send_result:
  assumes "process_inv p" "send_result p result = Returned p'"
    and "result = None \<or> result = answer t (worker p)"
  shows "process_inv p'"
proof (cases "worker p")
  case (At_send entry offset)
  define s where "s = (obj p)\<lparr>sent := sent (obj p) @ [(offset, entry)]\<rparr>"
  from assms(1) At_send have i: "process_inv (p\<lparr>obj := s\<rparr>)"
    by (simp add: process_inv_def s_def)
  from assms(1) At_send have o: "offset = sync_offset s"
    by (simp add: process_inv_def s_def request_offset_def)
  show ?thesis
  proof (cases result)
    case None
    with assms(2) At_send i show ?thesis by (simp add: send_result_def s_def)
  next
    case (Some r)
    obtain success response_offset where r: "r = (success, response_offset)" by (cases r)
    show ?thesis
    proof (cases success)
      case True
      with assms(2) At_send Some r have "p' = p\<lparr>obj := s, worker := At_callback entry\<rparr>"
        by (simp add: send_result_def s_def)
      with i At_send show ?thesis
        by (simp add: process_inv_def in_flight_def request_offset_def)
    next
      case False
      with assms(2) At_send Some r obtain s1 where
        m: "ReplicateLog_mismatch s response_offset = Returned s1" and
        p': "p' = p\<lparr>obj := s1, worker := At_test\<rparr>"
        by (auto simp: send_result_def s_def Let_def split: outcome.splits)
      from assms(3) Some r False At_send
      have "answer t (At_send entry offset) = Some (False, response_offset)" by simp
      from answer_rejection [OF this] o
      have b: "response_offset = - 1 \<or> response_offset < sync_offset s" by simp
      show ?thesis
      proof (cases "response_offset = - 1")
        case True
        with m have "s1 = s" by (simp add: ReplicateLog_mismatch_def)
        with i At_send show ?thesis
          unfolding p' by (simp add: process_inv_def in_flight_def request_offset_def)
      next
        case False
        with m have "0 \<le> response_offset"
          "s1 = s\<lparr>sync_offset := response_offset, read_log := response_offset\<rparr>"
          by (auto simp: ReplicateLog_mismatch_def lseek_set_def Let_def split: if_splits)
        with i At_send b False show ?thesis
          unfolding p' by (simp add: process_inv_def in_flight_def request_offset_def)
      qed
    qed
  qed
qed (use assms in \<open>simp_all add: send_result_def\<close>)

lemma process_inv_step:
  assumes "process_inv p" "step x p = Returned p'"
  shows "process_inv p'"
proof (cases x)
  case (Log_append_op entry)
  with assms(2) obtain s1 last_offset where
    a: "Log_append (obj p) entry = Returned (s1, last_offset)" and
    p': "p' = p\<lparr>obj := s1, callers := callers p @ [Appended last_offset]\<rparr>"
    by (auto split: outcome.splits)
  from process_inv_Log_append [OF assms(1) a] show ?thesis unfolding p' .
next
  case (Log_test_op n)
  with assms show ?thesis
    by (auto split: option.splits caller.splits)
next
  case (Log_no_wait_op n)
  have "process_inv (p\<lparr>obj := Log_no_wait (obj p)\<rparr>)"
    using assms(1) by (simp add: process_inv_def Log_no_wait_def)
  with Log_no_wait_op assms show ?thesis
    by (auto split: option.splits caller.splits)
next
  case (Log_loop_test_op n in_time)
  with assms show ?thesis
    by (auto split: option.splits caller.splits)
next
  case (Log_wake_op n woken)
  have "process_inv (p\<lparr>obj := Log_woken (obj p)\<rparr>)"
    using assms(1) by (simp add: process_inv_def Log_woken_def)
  with Log_wake_op assms show ?thesis
    by (auto split: option.splits caller.splits if_splits)
next
  case (Log_timeout_op n)
  have "process_inv (p\<lparr>obj := Log_timeout (obj p)\<rparr>)"
    using assms(1) by (simp add: process_inv_def Log_timeout_def)
  with Log_timeout_op assms show ?thesis
    by (auto split: option.splits caller.splits)
next
  case (Log_async_op entry c)
  with assms(2) obtain s1 where
    a: "Log_async (obj p) entry c = Returned s1" and p': "p' = p\<lparr>obj := s1\<rparr>"
    by (auto split: outcome.splits)
  from process_inv_Log_async [OF assms(1) a] show ?thesis unfolding p' .
next
  case (Timeout_task_op n)
  with assms(2) process_inv_timeout_task [OF assms(1), of n] show ?thesis by auto
next
  case Worker_op
  with assms show ?thesis by (simp add: process_inv_worker_step)
next
  case Send_failed_op
  with assms(2) have "send_result p None = Returned p'" by simp
  from process_inv_send_result [OF assms(1) this] show ?thesis by simp
next
  case (Answer_op t)
  with assms(2) have "send_result p (answer t (worker p)) = Returned p'" by simp
  from process_inv_send_result [OF assms(1) this, where t = t] show ?thesis by simp
next
  case LogStatus_op
  with assms show ?thesis by (auto simp: process_inv_def LogStatus_def)
qed

lemma process_inv_run:
  "process_inv p \<Longrightarrow> run ops p = Returned p' \<Longrightarrow> process_inv p'"
proof (induction ops arbitrary: p)
  case Nil
  then show ?case by simp
next
  case (Cons x ops)
  from Cons.prems(2) obtain p1 where
    1: "step x p = Returned p1" and 2: "run ops p1 = Returned p'"
    by (auto split: outcome.splits)
  from Cons.IH [OF process_inv_step [OF Cons.prems(1) 1] 2] show ?case .
qed

text \<open>The example executions.\<close>

lemma boot_fresh_process:
  "boot [''ns1'', ''ns2''] ''ns1'' ''master'' empty_disk = Returned fresh_process"
  by (simp add: boot_def startup_fresh_leader fresh_process_def IsLeader_def)
    (simp add: fresh_leader_def)

lemmas process_defs =
  worker_step_def send_result_def answer_def caller_at_def move_caller_def AppendLog_def

lemma run_race: "run race fresh_process = Returned raced_process"
  by (simp add: race_def fresh_process_def raced_process_def process_defs leader_defs bytes_defs
      fresh_leader_def fresh_standby_def Let_def)

lemma run_degrade: "run degrade fresh_process = Returned lagging_process"
  by (simp add: degrade_def fresh_process_def lagging_process_def lagging_leader_def
      process_defs leader_defs fresh_leader_def Let_def)

text \<open>
  Claim C3, as stated, fails. In the execution \<open>race\<close> the flag \<open>master_only_\<close> is
  never set and no response rewinds \<open>sync_offset_\<close>. The loop test of line 237
  fails with both offsets at 5; an entry is appended; line 283 then copies the new
  \<open>current_offset_\<close>, 10, to \<open>applied_offset_\<close>, and \<open>sync_offset_\<close> is still 5.
\<close>

theorem leader_watermarks_counterexample:
  "boot [''ns1'', ''ns2''] ''ns1'' ''master'' empty_disk = Returned fresh_process \<and>
   run race fresh_process = Returned raced_process \<and>
   \<not> master_only (obj raced_process) \<and>
   applied_offset (obj raced_process) = 10 \<and>
   sync_offset (obj raced_process) = 5 \<and>
   current_offset (obj raced_process) = 10"
  using boot_fresh_process run_race by (simp add: raced_process_def fresh_leader_def)

text \<open>
  Claim C3, amended. In every state that a leader reaches from \<open>Init\<close> by the steps
  of the blocking \<open>Log\<close>, the asynchronous \<open>Log\<close>, \<open>BackgroundLog\<close> with
  \<open>ReplicateLog\<close> and its \<open>PorcessCallbck\<close>, the delayed \<open>PorcessCallbck\<close> and
  \<open>LogStatus\<close>, in any order and with any answers of a standby,
  \<open>applied_offset_\<close> and \<open>sync_offset_\<close> are at most \<open>current_offset_\<close>, whatever
  the flag. When the flag is set, \<open>applied_offset_\<close> may equal \<open>current_offset_\<close>
  while \<open>sync_offset_\<close> lags behind: there is such a state. That \<open>applied_offset_\<close>
  is at most \<open>sync_offset_\<close> while the flag is not set is not kept.
\<close>

theorem leader_watermarks:
  assumes "boot nodes nameserver ''master'' d = Returned p0"
    and "run ops p0 = Returned p"
  shows "applied_offset (obj p) \<le> current_offset (obj p) \<and>
         sync_offset (obj p) \<le> current_offset (obj p) \<and>
         (\<exists>nodes' nameserver' d' p0' ops' p'.
            boot nodes' nameserver' ''master'' d' = Returned p0' \<and>
            run ops' p0' = Returned p' \<and> master_only (obj p') \<and>
            applied_offset (obj p') = current_offset (obj p') \<and>
            sync_offset (obj p') < current_offset (obj p'))"
proof -
  from process_inv_run [OF process_inv_boot [OF assms(1)] assms(2)]
  have i: "process_inv p" .
  have "0 \<le> in_flight (worker p)"
    by (cases "worker p") (simp_all add: in_flight_def)
  with i have 1: "applied_offset (obj p) \<le> current_offset (obj p)"
    "sync_offset (obj p) \<le> current_offset (obj p)"
    by (simp_all add: process_inv_def)
  have "master_only (obj lagging_process) \<and>
      applied_offset (obj lagging_process) = current_offset (obj lagging_process) \<and>
      sync_offset (obj lagging_process) < current_offset (obj lagging_process)"
    by (simp add: lagging_process_def lagging_leader_def fresh_leader_def)
  with boot_fresh_process run_degrade 1 show ?thesis by blast
qed

text \<open>The theorem of claim C3 at a concrete input.\<close>

theorem leader_watermarks_witness:
  "boot [''ns1'', ''ns2''] ''ns1'' ''master'' empty_disk = Returned fresh_process \<and>
   run resync fresh_process = Returned rewound_process \<and>
   applied_offset (obj rewound_process) \<le> current_offset (obj rewound_process) \<and>
   sync_offset (obj rewound_process) \<le> current_offset (obj rewound_process)"
proof -
  have r: "run resync fresh_process = Returned rewound_process"
    by (simp add: resync_def fresh_process_def rewound_process_def process_defs leader_defs
        bytes_defs fresh_leader_def fresh_standby_def Let_def)
  from leader_watermarks [OF boot_fresh_process r] boot_fresh_process r
  show ?thesis by simp
qed

subsection \<open>Completion callbacks\<close>

text \<open>What a step does to the table, the trace and \<open>current_offset_\<close>.\<close>

lemma PorcessCallbck_table:
  "callbacks (PorcessCallbck s offset len tc) = (callbacks s)(offset := None) \<and>
   fired (PorcessCallbck s offset len tc) =
     fired s @ (case callbacks s offset of None \<Rightarrow> [] | Some c \<Rightarrow> [(c, True)]) \<and>
   current_offset (PorcessCallbck s offset len tc) = current_offset s"
  by (auto simp: PorcessCallbck_def Let_def split: option.splits)

lemma Log_async_table:
  assumes "Log_async s entry c = Returned s'"
  shows "current_offset s < current_offset s' \<and>
     (if master_only s \<and> sync_offset s < current_offset s
      then callbacks s' = callbacks s \<and> fired s' = fired s @ [(c, True)] \<and>
           timeout_tasks s' = timeout_tasks s
      else fired s' = fired s \<and>
           callbacks s' = (if callbacks s (current_offset s) = None
                           then (callbacks s)(current_offset s \<mapsto> c) else callbacks s) \<and>
           timeout_tasks s' = timeout_tasks s @ [(current_offset s, int (length entry) + 4)])"
  using assms
  by (auto simp: Log_async_def LogLocal_def Let_def split: if_splits)

lemma worker_step_table:
  assumes "worker_step p = Returned p'"
  shows "current_offset (obj p') = current_offset (obj p) \<and>
     timeout_tasks (obj p') = timeout_tasks (obj p) \<and>
     (callbacks (obj p') = callbacks (obj p) \<and> fired (obj p') = fired (obj p) \<or>
      (\<exists>k. callbacks (obj p') = (callbacks (obj p))(k := None) \<and>
           fired (obj p') =
             fired (obj p) @ (case callbacks (obj p) k of None \<Rightarrow> [] | Some c \<Rightarrow> [(c, True)])))"
proof (cases "worker p")
  case (At_callback entry)
  with assms have
    "p' = p\<lparr>obj := PorcessCallbck (obj p) (sync_offset (obj p)) (int (length entry) + 4) False,
             worker := At_advance entry\<rparr>"
    by (simp add: worker_step_def Let_def)
  with PorcessCallbck_table [of "obj p" "sync_offset (obj p)" "int (length entry) + 4" False]
    PorcessCallbck_fields [of "obj p" "sync_offset (obj p)" "int (length entry) + 4" False]
  show ?thesis by auto
next
  case At_read
  with assms show ?thesis
    by (auto simp: worker_step_def Let_def split: outcome.splits option.splits)
qed (use assms in \<open>auto simp: worker_step_def Let_def ReplicateLog_advance_def
      ReplicateLog_done_def split: if_splits\<close>)

lemma send_result_table:
  assumes "send_result p result = Returned p'"
  shows "current_offset (obj p') = current_offset (obj p) \<and>
     timeout_tasks (obj p') = timeout_tasks (obj p) \<and>
     callbacks (obj p') = callbacks (obj p) \<and> fired (obj p') = fired (obj p)"
  using assms
  by (auto simp: send_result_def ReplicateLog_mismatch_def lseek_set_def Let_def
      split: worker.splits option.splits outcome.splits if_splits)

lemma run_timeout_task_table:
  "current_offset (run_timeout_task s n) = current_offset s \<and>
     (callbacks (run_timeout_task s n) = callbacks s \<and> fired (run_timeout_task s n) = fired s \<or>
      (\<exists>k. callbacks (run_timeout_task s n) = (callbacks s)(k := None) \<and>
           fired (run_timeout_task s n) =
             fired s @ (case callbacks s k of None \<Rightarrow> [] | Some c \<Rightarrow> [(c, True)])))"
proof (cases "n < length (timeout_tasks s)")
  case False
  then show ?thesis by (simp add: run_timeout_task_def)
next
  case True
  obtain offset len where t: "timeout_tasks s ! n = (offset, len)" by (cases "timeout_tasks s ! n")
  define s1 where
    "s1 = s\<lparr>timeout_tasks := take n (timeout_tasks s) @ drop (Suc n) (timeout_tasks s)\<rparr>"
  from True t have r: "run_timeout_task s n = PorcessCallbck s1 offset len True"
    by (simp add: run_timeout_task_def s1_def)
  from PorcessCallbck_table [of s1 offset len True] show ?thesis
    unfolding r by (auto simp: s1_def)
qed

lemma step_table:
  assumes "step x p = Returned p'"
  shows "current_offset (obj p) \<le> current_offset (obj p') \<and>
     (callbacks (obj p') = callbacks (obj p) \<and> fired (obj p') = fired (obj p) \<or>
      (\<exists>k. callbacks (obj p') = (callbacks (obj p))(k := None) \<and>
           fired (obj p') =
             fired (obj p) @ (case callbacks (obj p) k of None \<Rightarrow> [] | Some c \<Rightarrow> [(c, True)])) \<or>
      (\<exists>e c. x = Log_async_op e c \<and> current_offset (obj p) < current_offset (obj p') \<and>
         (callbacks (obj p') = callbacks (obj p) \<and> fired (obj p') = fired (obj p) @ [(c, True)] \<or>
          fired (obj p') = fired (obj p) \<and>
          callbacks (obj p') =
            (if callbacks (obj p) (current_offset (obj p)) = None
             then (callbacks (obj p))(current_offset (obj p) \<mapsto> c) else callbacks (obj p)))))"
proof (cases x)
  case (Log_append_op entry)
  with assms show ?thesis
    by (auto simp: Log_append_def LogLocal_def Let_def split: outcome.splits if_splits)
next
  case (Log_test_op n)
  with assms show ?thesis
    by (auto simp: move_caller_def split: option.splits caller.splits)
next
  case (Log_no_wait_op n)
  with assms show ?thesis
    by (auto simp: move_caller_def Log_no_wait_def split: option.splits caller.splits)
next
  case (Log_loop_test_op n in_time)
  with assms show ?thesis
    by (auto simp: move_caller_def split: option.splits caller.splits)
next
  case (Log_wake_op n woken)
  with assms show ?thesis
    by (auto simp: move_caller_def Log_woken_def split: option.splits caller.splits if_splits)
next
  case (Log_timeout_op n)
  with assms show ?thesis
    by (auto simp: move_caller_def Log_timeout_def split: option.splits caller.splits)
next
  case (Log_async_op entry c)
  with assms obtain s1 where
    a: "Log_async (obj p) entry c = Returned s1" and p': "p' = p\<lparr>obj := s1\<rparr>"
    by (auto split: outcome.splits)
  from Log_async_table [OF a] Log_async_op show ?thesis
    unfolding p' by (auto split: if_splits)
next
  case (Timeout_task_op n)
  with assms run_timeout_task_table [of "obj p" n] show ?thesis by auto
next
  case Worker_op
  with assms have "worker_step p = Returned p'" by simp
  from worker_step_table [OF this] show ?thesis by auto
next
  case Send_failed_op
  with assms have "send_result p None = Returned p'" by simp
  from send_result_table [OF this] show ?thesis by simp
next
  case (Answer_op t)
  with assms have "send_result p (answer t (worker p)) = Returned p'" by simp
  from send_result_table [OF this] show ?thesis by simp
next
  case LogStatus_op
  with assms show ?thesis by (auto simp: LogStatus_def)
qed

text \<open>A timeout check leaves the pool only by running, and then its offset has left the table.\<close>

lemma step_tasks:
  assumes "step x p = Returned p'" "task \<in> set (timeout_tasks (obj p))"
  shows "task \<in> set (timeout_tasks (obj p')) \<or> callbacks (obj p') (fst task) = None"
proof (cases x)
  case (Log_append_op entry)
  with assms show ?thesis
    by (auto simp: Log_append_def LogLocal_def Let_def split: outcome.splits if_splits)
next
  case (Log_test_op n)
  with assms show ?thesis
    by (auto simp: move_caller_def split: option.splits caller.splits)
next
  case (Log_no_wait_op n)
  with assms show ?thesis
    by (auto simp: move_caller_def Log_no_wait_def split: option.splits caller.splits)
next
  case (Log_loop_test_op n in_time)
  with assms show ?thesis
    by (auto simp: move_caller_def split: option.splits caller.splits)
next
  case (Log_wake_op n woken)
  with assms show ?thesis
    by (auto simp: move_caller_def Log_woken_def split: option.splits caller.splits if_splits)
next
  case (Log_timeout_op n)
  with assms show ?thesis
    by (auto simp: move_caller_def Log_timeout_def split: option.splits caller.splits)
next
  case (Log_async_op entry c)
  with assms(1) obtain s1 where
    a: "Log_async (obj p) entry c = Returned s1" and p': "p' = p\<lparr>obj := s1\<rparr>"
    by (auto split: outcome.splits)
  from Log_async_table [OF a] assms(2) show ?thesis
    unfolding p' by (auto split: if_splits)
next
  case (Timeout_task_op n)
  define s where "s = obj p"
  show ?thesis
  proof (cases "n < length (timeout_tasks s)")
    case False
    with Timeout_task_op assms show ?thesis by (auto simp: run_timeout_task_def s_def)
  next
    case True
    obtain offset len where t: "timeout_tasks s ! n = (offset, len)"
      by (cases "timeout_tasks s ! n")
    define s1 where
      "s1 = s\<lparr>timeout_tasks := take n (timeout_tasks s) @ drop (Suc n) (timeout_tasks s)\<rparr>"
    from True t Timeout_task_op assms(1) have s': "obj p' = PorcessCallbck s1 offset len True"
      by (auto simp: run_timeout_task_def s1_def s_def)
    have c: "callbacks (obj p') offset = None"
      by (simp add: s' PorcessCallbck_table)
    have k: "timeout_tasks (obj p') = take n (timeout_tasks s) @ drop (Suc n) (timeout_tasks s)"
      by (simp add: s' PorcessCallbck_fields s1_def)
    have "set (timeout_tasks s) =
        set (take n (timeout_tasks s) @ timeout_tasks s ! n # drop (Suc n) (timeout_tasks s))"
      by (rule arg_cong [where f = set, OF id_take_nth_drop [OF True]])
    then have "set (timeout_tasks s) =
        set (take n (timeout_tasks s)) \<union> {timeout_tasks s ! n} \<union>
        set (drop (Suc n) (timeout_tasks s))"
      by (simp only: set_append list.set Un_insert_right Un_insert_left Un_empty_right
          Un_empty_left Un_assoc)
    moreover from assms(2) have "task \<in> set (timeout_tasks s)" by (simp add: s_def)
    ultimately have "task = (offset, len) \<or> task \<in> set (timeout_tasks (obj p'))"
      by (auto simp: k t)
    with c show ?thesis by auto
  qed
next
  case Worker_op
  with assms(1) have "worker_step p = Returned p'" by simp
  from worker_step_table [OF this] assms(2) show ?thesis by simp
next
  case Send_failed_op
  with assms(1) have "send_result p None = Returned p'" by simp
  from send_result_table [OF this] assms(2) show ?thesis by simp
next
  case (Answer_op t)
  with assms(1) have "send_result p (answer t (worker p)) = Returned p'" by simp
  from send_result_table [OF this] assms(2) show ?thesis by simp
next
  case LogStatus_op
  with assms show ?thesis by (auto simp: LogStatus_def)
qed

lemma once_step:
  assumes "once k len cb n (obj p)" "\<forall>e. x \<noteq> Log_async_op e cb" "step x p = Returned p'"
  shows "once k len cb n (obj p')"
proof -
  define s where "s = obj p"
  define s' where "s' = obj p'"
  from assms(1) have o: "k < current_offset s" "\<forall>k'. k' \<noteq> k \<longrightarrow> callbacks s k' \<noteq> Some cb"
    "callbacks s k = Some cb \<and> count_list (fired s) (cb, True) = n \<and>
       (k, len) \<in> set (timeout_tasks s) \<or>
     callbacks s k = None \<and> count_list (fired s) (cb, True) = Suc n"
    by (simp_all add: once_def s_def)
  have task: "(k, len) \<in> set (timeout_tasks s')"
    if "(k, len) \<in> set (timeout_tasks s)" "callbacks s' k \<noteq> None"
    using step_tasks [OF assms(3), of "(k, len)"] that by (auto simp: s_def s'_def)
  note st = step_table [OF assms(3), folded s_def s'_def]
  from st have m: "current_offset s \<le> current_offset s'" by simp
  from st consider
    (same) "callbacks s' = callbacks s" "fired s' = fired s"
    | (take) j where "callbacks s' = (callbacks s)(j := None)"
        "fired s' = fired s @ (case callbacks s j of None \<Rightarrow> [] | Some c \<Rightarrow> [(c, True)])"
    | (now) e c where "x = Log_async_op e c" "callbacks s' = callbacks s"
        "fired s' = fired s @ [(c, True)]"
    | (reg) e c where "x = Log_async_op e c" "fired s' = fired s"
        "callbacks s' = (if callbacks s (current_offset s) = None
                         then (callbacks s)(current_offset s \<mapsto> c) else callbacks s)"
    by blast
  then have "once k len cb n s'"
  proof cases
    case same
    with o m task show ?thesis by (auto simp: once_def)
  next
    case take
    show ?thesis
    proof (cases "j = k")
      case True
      with take o m show ?thesis by (auto simp: once_def)
    next
      case False
      with o(2) have "callbacks s j \<noteq> Some cb" by simp
      then have "count_list (fired s') (cb, True) = count_list (fired s) (cb, True)"
        using take(2) by (auto split: option.splits)
      with take(1) False o m task show ?thesis by (auto simp: once_def)
    qed
  next
    case now
    with assms(2) have "c \<noteq> cb" by blast
    with now o m task show ?thesis by (auto simp: once_def)
  next
    case reg
    with assms(2) have "c \<noteq> cb" by blast
    with reg o m task show ?thesis by (auto simp: once_def)
  qed
  thus ?thesis by (simp add: s'_def)
qed

lemma once_run:
  "once k len cb n (obj p) \<Longrightarrow> \<forall>x \<in> set ops. \<forall>e. x \<noteq> Log_async_op e cb \<Longrightarrow>
   run ops p = Returned p' \<Longrightarrow> once k len cb n (obj p')"
proof (induction ops arbitrary: p)
  case Nil
  then show ?case by simp
next
  case (Cons x ops)
  from Cons.prems(3) obtain p1 where
    1: "step x p = Returned p1" and 2: "run ops p1 = Returned p'"
    by (auto split: outcome.splits)
  from Cons.prems(2) have "\<forall>e. x \<noteq> Log_async_op e cb"
    "\<forall>x \<in> set ops. \<forall>e. x \<noteq> Log_async_op e cb" by simp_all
  from Cons.IH [OF once_step [OF Cons.prems(1) this(1) 1] this(2) 2] show ?case .
qed

text \<open>Every key of the table lies below \<open>current_offset_\<close>.\<close>

lemma keys_below_step:
  assumes "\<forall>k. callbacks (obj p) k \<noteq> None \<longrightarrow> k < current_offset (obj p)"
    and "step x p = Returned p'"
  shows "\<forall>k. callbacks (obj p') k \<noteq> None \<longrightarrow> k < current_offset (obj p')"
  using step_table [OF assms(2)] assms(1)
  by (fastforce split: if_splits)

lemma keys_below_run:
  "\<forall>k. callbacks (obj p) k \<noteq> None \<longrightarrow> k < current_offset (obj p) \<Longrightarrow>
   run ops p = Returned p' \<Longrightarrow>
   \<forall>k. callbacks (obj p') k \<noteq> None \<longrightarrow> k < current_offset (obj p')"
proof (induction ops arbitrary: p)
  case Nil
  then show ?case by simp
next
  case (Cons x ops)
  from Cons.prems(2) obtain p1 where
    1: "step x p = Returned p1" and 2: "run ops p1 = Returned p'"
    by (auto split: outcome.splits)
  from Cons.IH [OF keys_below_step [OF Cons.prems(1) 1] 2] show ?case .
qed

lemma boot_post:
  assumes "boot nodes nameserver role d = Returned p"
  shows "startup nodes nameserver role d = Returned (obj p)"
  using assms by (auto simp: boot_def split: outcome.splits)

text \<open>
  Claim C6. An asynchronous \<open>Log\<close> on a leader, not taking the immediate path,
  stores its callback under the offset at which the entry starts and schedules the
  timeout check for that offset. Whatever steps follow, the callback is either still
  in the table, not invoked, with its timeout check still scheduled, or it has left
  the table and has been invoked exactly once; and after any run of \<open>PorcessCallbck\<close>
  for that offset, from the Replicator or from the timeout check, it has left the
  table and has been invoked exactly once, a further run invoking nothing. The
  callback is told apart from those of other calls by its identity.
\<close>

theorem callback_invoked_once:
  assumes "boot nodes nameserver ''master'' d = Returned i"
    and "run ops0 i = Returned p0"
    and "\<not> (master_only (obj p0) \<and> sync_offset (obj p0) < current_offset (obj p0))"
    and "cb \<notin> ran (callbacks (obj p0))"
    and "step (Log_async_op entry cb) p0 = Returned p"
    and "\<forall>x \<in> set ops. \<forall>e. x \<noteq> Log_async_op e cb"
    and "run ops p = Returned p'"
  shows "callbacks (obj p) (current_offset (obj p0)) = Some cb \<and>
         (current_offset (obj p0), int (length entry) + 4) \<in> set (timeout_tasks (obj p)) \<and>
         fired (obj p) = fired (obj p0) \<and>
         (callbacks (obj p') (current_offset (obj p0)) = Some cb \<and>
            count_list (fired (obj p')) (cb, True) = count_list (fired (obj p)) (cb, True) \<and>
            (current_offset (obj p0), int (length entry) + 4) \<in> set (timeout_tasks (obj p')) \<or>
          callbacks (obj p') (current_offset (obj p0)) = None \<and>
            count_list (fired (obj p')) (cb, True) =
              Suc (count_list (fired (obj p)) (cb, True))) \<and>
         callbacks (PorcessCallbck (obj p') (current_offset (obj p0)) len tc)
             (current_offset (obj p0)) = None \<and>
         count_list (fired (PorcessCallbck (obj p') (current_offset (obj p0)) len tc)) (cb, True) =
           Suc (count_list (fired (obj p)) (cb, True)) \<and>
         fired (PorcessCallbck (PorcessCallbck (obj p') (current_offset (obj p0)) len tc)
                  (current_offset (obj p0)) len' tc') =
           fired (PorcessCallbck (obj p') (current_offset (obj p0)) len tc)"
proof -
  define s0 where "s0 = obj p0"
  define s where "s = obj p"
  define s' where "s' = obj p'"
  define k where "k = current_offset s0"
  define l where "l = int (length entry) + 4"
  from startup_post [OF boot_post [OF assms(1)]]
  have "\<forall>k. callbacks (obj i) k \<noteq> None \<longrightarrow> k < current_offset (obj i)"
    by simp
  from keys_below_run [OF this assms(2)] have below: "callbacks s0 k = None"
    by (auto simp: k_def s0_def)
  from assms(4) have fresh: "\<forall>k'. callbacks s0 k' \<noteq> Some cb"
    by (auto simp: ran_def s0_def)
  from assms(5) have a: "Log_async s0 entry cb = Returned s"
    by (auto simp: s0_def s_def split: outcome.splits)
  note t = Log_async_table [OF a]
  from t assms(3) below have
    reg: "callbacks s = (callbacks s0)(k \<mapsto> cb)" "fired s = fired s0"
      "timeout_tasks s = timeout_tasks s0 @ [(k, l)]"
      "k < current_offset s"
    by (auto simp: k_def l_def s0_def split: if_splits)
  from reg fresh have "once k l cb (count_list (fired s) (cb, True)) (obj p)"
    by (simp add: once_def s_def)
  from once_run [OF this assms(6,7)] have
    o: "once k l cb (count_list (fired s) (cb, True)) s'" by (simp add: s'_def)
  note p = PorcessCallbck_table [of s' k len tc]
  note p2 = PorcessCallbck_table [of "PorcessCallbck s' k len tc" k len' tc']
  from o have
    "callbacks s' k = Some cb \<and>
       count_list (fired s') (cb, True) = count_list (fired s) (cb, True) \<and>
       (k, l) \<in> set (timeout_tasks s') \<or>
     callbacks s' k = None \<and>
       count_list (fired s') (cb, True) = Suc (count_list (fired s) (cb, True))"
    by (simp add: once_def)
  moreover from this p have
    "count_list (fired (PorcessCallbck s' k len tc)) (cb, True) =
       Suc (count_list (fired s) (cb, True))"
    by auto
  moreover from p have "callbacks (PorcessCallbck s' k len tc) k = None" by simp
  moreover from this p2 have
    "fired (PorcessCallbck (PorcessCallbck s' k len tc) k len' tc') =
     fired (PorcessCallbck s' k len tc)"
    by simp
  ultimately show ?thesis using reg
    unfolding s0_def [symmetric] s_def [symmetric] s'_def [symmetric]
    by (simp add: k_def [symmetric] l_def [symmetric])
qed

text \<open>The theorem of claim C6 at a concrete input.\<close>

theorem callback_invoked_once_witness:
  "boot [''ns1'', ''ns2''] ''ns1'' ''master'' empty_disk = Returned fresh_process \<and>
   run [] fresh_process = Returned fresh_process \<and>
   \<not> (master_only (obj fresh_process) \<and>
      sync_offset (obj fresh_process) < current_offset (obj fresh_process)) \<and>
   7 \<notin> ran (callbacks (obj fresh_process)) \<and>
   step (Log_async_op ''a'' 7) fresh_process =
     Returned (fresh_process
       \<lparr>obj := fresh_leader\<lparr>log_file := le32 1 @ ''a'', current_offset := 5,
                 callbacks := [0 \<mapsto> 7], timeout_tasks := [(0, 5)]\<rparr>\<rparr>) \<and>
   (\<forall>e. Worker_op \<noteq> Log_async_op e 7) \<and>
   (\<forall>e. Answer_op fresh_standby \<noteq> Log_async_op e 7) \<and>
   (\<forall>e. Timeout_task_op 0 \<noteq> Log_async_op e 7) \<and>
   run [Worker_op, Worker_op, Worker_op, Worker_op, Answer_op fresh_standby, Worker_op,
        Worker_op, Timeout_task_op 0]
       (fresh_process
          \<lparr>obj := fresh_leader\<lparr>log_file := le32 1 @ ''a'', current_offset := 5,
                    callbacks := [0 \<mapsto> 7], timeout_tasks := [(0, 5)]\<rparr>\<rparr>) =
     Returned synced_process \<and>
   callbacks (obj synced_process) (current_offset (obj fresh_process)) = None \<and>
   count_list (fired (obj synced_process)) (7, True) = 1 \<and>
   count_list (fired (PorcessCallbck (obj synced_process)
                        (current_offset (obj fresh_process)) 5 True)) (7, True) = 1"
proof -
  define p where
    "p = fresh_process
       \<lparr>obj := fresh_leader\<lparr>log_file := le32 1 @ ''a'', current_offset := 5,
                 callbacks := [0 \<mapsto> 7], timeout_tasks := [(0, 5)]\<rparr>\<rparr>"
  define ops where
    "ops = [Worker_op, Worker_op, Worker_op, Worker_op, Answer_op fresh_standby, Worker_op,
        Worker_op, Timeout_task_op 0]"
  have h2: "run [] fresh_process = Returned fresh_process" by simp
  have h3: "\<not> (master_only (obj fresh_process) \<and>
      sync_offset (obj fresh_process) < current_offset (obj fresh_process))"
    and h4: "7 \<notin> ran (callbacks (obj fresh_process))"
    by (simp_all add: fresh_process_def fresh_leader_def)
  have h5: "step (Log_async_op ''a'' 7) fresh_process = Returned p"
    by (simp add: leader_defs fresh_process_def fresh_leader_def p_def Let_def)
  have h6: "\<forall>x \<in> set ops. \<forall>e. x \<noteq> Log_async_op e 7"
    by (simp add: ops_def)
  have h7: "run ops p = Returned synced_process"
    by (simp add: ops_def p_def fresh_process_def synced_process_def process_defs leader_defs
        bytes_defs fresh_leader_def fresh_standby_def Let_def)
  have f: "count_list (fired (obj p)) (7, True) = 0" "current_offset (obj fresh_process) = 0"
    by (simp_all add: p_def fresh_process_def fresh_leader_def)
  have c: "callbacks (obj synced_process) 0 = None"
    by (simp add: synced_process_def fresh_leader_def)
  from callback_invoked_once [OF boot_fresh_process h2 h3 h4 h5 h6 h7, of 5 True] c
  have "count_list (fired (obj synced_process)) (7, True) = 1"
    "count_list (fired (PorcessCallbck (obj synced_process)
                        (current_offset (obj fresh_process)) 5 True)) (7, True) = 1"
    by (simp_all add: f)
  with boot_fresh_process h2 h3 h4 h5 h7 c f(2) show ?thesis
    unfolding p_def ops_def by simp
qed

subsection \<open>The flag \<open>master_only_\<close>\<close>

lemma PorcessCallbck_keeps_master_only:
  "master_only s \<Longrightarrow> master_only (PorcessCallbck s offset len tc)"
  by (simp add: PorcessCallbck_fields)

text \<open>
  Claim C2 does not hold of the code. A blocking \<open>Log\<close> that the Replicator
  overtakes finds \<open>sync_offset_ = current_offset_\<close> at its first loop test, falls
  through to line 130 and sets \<open>master_only_\<close>, although the standby has
  everything. And the last statement of \<open>PorcessCallbck\<close>, under the message
  ``leaves master-only mode'', assigns \<open>true\<close>: the function never clears the flag.
\<close>

theorem master_only_left_set:
  "Log overtaken fresh_leader ''a'' 1000 = Returned (overtaken_leader, True) \<and>
   master_only overtaken_leader \<and>
   sync_offset overtaken_leader = current_offset overtaken_leader \<and>
   master_only
     (PorcessCallbck
        (fresh_leader\<lparr>master_only := True, log_file := le32 1 @ ''a'', current_offset := 5,
           callbacks := [0 \<mapsto> 7]\<rparr>) 0 5 False)"
proof -
  have "ReplicateLog [Reply True 0]
          (fresh_leader\<lparr>log_file := le32 1 @ ''a'', current_offset := 5\<rparr>) =
        Drain_returned
          (fresh_leader\<lparr>log_file := le32 1 @ ''a'', read_log := 5, current_offset := 5,
             applied_offset := 5, sync_offset := 5, sent := [(0, ''a'')]\<rparr>)"
    by (simp add: ReplicateLog.simps leader_defs bytes_defs fresh_leader_def Let_def)
  then have "Log overtaken fresh_leader ''a'' 1000 = Returned (overtaken_leader, True)"
    by (simp add: Log_def Log_traced_def Log_append_leader overtaken_def overtaken_leader_def
        Log_timeout_def fresh_leader_def Let_def wrap_int_def)
  moreover have "master_only overtaken_leader"
    "sync_offset overtaken_leader = current_offset overtaken_leader"
    by (simp_all add: overtaken_leader_def)
  moreover have "master_only
     (PorcessCallbck
        (fresh_leader\<lparr>master_only := True, log_file := le32 1 @ ''a'', current_offset := 5,
           callbacks := [0 \<mapsto> 7]\<rparr>) 0 5 False)"
    by (rule PorcessCallbck_keeps_master_only) simp
  ultimately show ?thesis by blast
qed

end
